theory Spec2Isabelle
  imports Main
begin

section \<open>Python strings\<close>

text \<open>
  A Python \<open>str\<close> is a sequence of Unicode code points, and \<open>len\<close> counts code
  points; it is modelled as a list of naturals.  Literals of the source are written
  \<open>str ''...''\<close>; the three symbols of the source outside ASCII (the bullet, the em
  dash and the arrow of the messages) are given by their code points.
\<close>

type_synonym pystr = "nat list"

abbreviation str :: "string \<Rightarrow> pystr" where
  "str s \<equiv> map (of_char :: char \<Rightarrow> nat) s"

definition bullet :: pystr where
  "bullet = [8226]"

definition em_dash :: pystr where
  "em_dash = [8212]"

definition arrow :: pystr where
  "arrow = [8594]"

text \<open>\<open>str.isspace\<close> for one code point: the whitespace of \<open>strip()\<close> and \<open>split()\<close>.\<close>

definition is_space :: "nat \<Rightarrow> bool" where
  "is_space c \<longleftrightarrow>
     (9 \<le> c \<and> c \<le> 13) \<or> (28 \<le> c \<and> c \<le> 32) \<or> c = 133 \<or> c = 160 \<or> c = 5760 \<or>
     (8192 \<le> c \<and> c \<le> 8202) \<or> c = 8232 \<or> c = 8233 \<or> c = 8239 \<or> c = 8287 \<or> c = 12288"

text \<open>\<open>s.strip()\<close>\<close>

definition strip :: "pystr \<Rightarrow> pystr" where
  "strip s = rev (dropWhile is_space (rev (dropWhile is_space s)))"

text \<open>\<open>s.split()\<close>: the maximal runs of non-whitespace; \<open>w\<close> is the run being read.\<close>

fun split_ws :: "pystr \<Rightarrow> pystr \<Rightarrow> pystr list" where
  "split_ws w [] = (if w = [] then [] else [w])"
| "split_ws w (c # cs) =
     (if is_space c then (if w = [] then split_ws [] cs else w # split_ws [] cs)
      else split_ws (w @ [c]) cs)"

text \<open>\<open>s.split(sep)\<close> for a separator of one character: never an empty list.\<close>

fun split_on :: "nat \<Rightarrow> pystr \<Rightarrow> pystr \<Rightarrow> pystr list" where
  "split_on sep w [] = [w]"
| "split_on sep w (c # cs) =
     (if c = sep then w # split_on sep [] cs else split_on sep (w @ [c]) cs)"

text \<open>\<open>sep.join(xs)\<close>\<close>

fun join :: "pystr \<Rightarrow> pystr list \<Rightarrow> pystr" where
  "join sep [] = []"
| "join sep [x] = x"
| "join sep (x # y # ys) = x @ sep @ join sep (y # ys)"

text \<open>\<open>s.startswith(p)\<close> and \<open>sub in s\<close>\<close>

fun startswith :: "pystr \<Rightarrow> pystr \<Rightarrow> bool" where
  "startswith s [] = True"
| "startswith [] (p # ps) = False"
| "startswith (c # cs) (p # ps) = (c = p \<and> startswith cs ps)"

fun contains :: "pystr \<Rightarrow> pystr \<Rightarrow> bool" where
  "contains sub [] = (sub = [])"
| "contains sub (c # cs) = (startswith (c # cs) sub \<or> contains sub cs)"

text \<open>
  \<open>s.lower()\<close>.  The source only tests the lowered string for the ASCII patterns
  \<open>http://\<close>, \<open>https://\<close> and \<open>javascript\<close>.  Outside ASCII, Unicode lowering
  yields an ASCII letter for two code points only (U+212A gives \<open>k\<close>, U+0130 gives
  \<open>i\<close> followed by U+0307), and neither can complete one of the three patterns, so the
  lowering of \<open>A\<close>..\<open>Z\<close> decides those tests.
\<close>

definition lower_cp :: "nat \<Rightarrow> nat" where
  "lower_cp c = (if 65 \<le> c \<and> c \<le> 90 then c + 32 else c)"

definition lower :: "pystr \<Rightarrow> pystr" where
  "lower s = map lower_cp s"

section \<open>Exceptions\<close>

text \<open>
  The instances of Python's \<open>Exception\<close> that the program raises or receives from
  its libraries: \<open>RuntimeError\<close> is raised by \<open>main\<close>, \<open>ValueError\<close> by
  \<open>urlparse\<close> and \<open>time.sleep\<close>, \<open>UnicodeEncodeError\<close> by \<open>quote_plus\<close>,
  \<open>AttributeError\<close> by an attribute read on \<open>None\<close>, the others by \<open>requests\<close>,
  \<open>sqlite3\<close> and \<open>smtplib\<close>.
\<close>

datatype exn =
    RuntimeError pystr
  | ValueError pystr
  | RequestException pystr
  | HTTPError int
  | DatabaseError pystr
  | SMTPException pystr
  | UnicodeEncodeError nat
  | AttributeError pystr

section \<open>The extractor\<close>

text \<open>
  \<open>BeautifulSoup(html_text, "html.parser")\<close> is a library call.  Its result is taken
  as the two queries the source makes of it: \<open>find_all("a", href=True)\<close>, the anchors
  in document order, each with its \<open>href\<close> attribute and its
  \<open>get_text(strip=True)\<close>; and \<open>select("[data-product-id]")\<close>, the tiles, each with
  the attribute and the \<open>get_text(strip=True)\<close> of \<open>select_one\<close> for the four
  selectors (\<open>None\<close> when nothing matches).
\<close>

record anchor =
  href :: pystr
  get_text :: pystr

record tile =
  data_product_id :: pystr
  sel_a :: "pystr option"
  sel_product_name :: "pystr option"
  sel_h2 :: "pystr option"
  sel_h3 :: "pystr option"

record soup =
  find_all_a :: "anchor list"
  select_tiles :: "tile list"

type_synonym product = "pystr \<times> pystr"

text \<open>
  The primary and the secondary loop of \<open>parse_products_from_html\<close> are the same
  code with another marker.  \<open>urlparse_path href\<close> stands for
  \<open>urlparse(href).path\<close>, which raises \<open>ValueError\<close> on a malformed network
  location; the exception leaves the loop.
\<close>

fun link_loop ::
  "(pystr \<Rightarrow> exn + pystr) \<Rightarrow> pystr \<Rightarrow> product list \<Rightarrow> anchor list \<Rightarrow> exn + product list"
where
  "link_loop urlparse_path marker products [] = Inr products"
| "link_loop urlparse_path marker products (a # as) =
     (let h = strip (href a); t = get_text a in
      if t = [] then link_loop urlparse_path marker products as
      else if contains marker h then
        (case urlparse_path h of
           Inl e \<Rightarrow> Inl e
         | Inr path \<Rightarrow>
             let parts = filter (\<lambda>p. p \<noteq> []) (split_on 47 [] path);
                 pid = (if parts \<noteq> [] then last parts else path);
                 title = join (str '' '') (split_ws [] t)
             in link_loop urlparse_path marker (products @ [(pid, title)]) as)
      else link_loop urlparse_path marker products as)"

text \<open>The tertiary loop, over the elements with a \<open>data-product-id\<close> attribute.\<close>

definition tile_title :: "tile \<Rightarrow> pystr" where
  "tile_title el =
     (case sel_a el of Some x \<Rightarrow> x | None \<Rightarrow>
      (case sel_product_name el of Some x \<Rightarrow> x | None \<Rightarrow>
       (case sel_h2 el of Some x \<Rightarrow> x | None \<Rightarrow>
        (case sel_h3 el of Some x \<Rightarrow> x | None \<Rightarrow> []))))"

fun tile_loop :: "product list \<Rightarrow> tile list \<Rightarrow> product list" where
  "tile_loop products [] = products"
| "tile_loop products (el # els) =
     (let pid = data_product_id el; title = tile_title el in
      if pid \<noteq> [] then tile_loop (products @ [(strip pid, strip title)]) els
      else tile_loop products els)"

text \<open>The final fallback loop, over every anchor again.\<close>

fun fallback_loop ::
  "(pystr \<Rightarrow> exn + pystr) \<Rightarrow> product list \<Rightarrow> anchor list \<Rightarrow> exn + product list"
where
  "fallback_loop urlparse_path products [] = Inr products"
| "fallback_loop urlparse_path products (a # as) =
     (let h = strip (href a); t = get_text a in
      if t = [] \<or> length t < 4 then fallback_loop urlparse_path products as
      else if contains (str ''javascript'') (lower h) then fallback_loop urlparse_path products as
      else
        (case urlparse_path h of
           Inl e \<Rightarrow> Inl e
         | Inr path \<Rightarrow>
             let seg = hd (split_on 63 [] (last (split_on 47 [] path)));
                 pid = (if seg \<noteq> [] then seg else h)
             in fallback_loop urlparse_path (products @ [(pid, t)]) as))"

text \<open>
  The deduplication loop.  \<open>unique\<close> is a Python \<open>dict\<close>, which keeps its keys in
  insertion order: an association list with one entry per key.  The comprehension
  \<open>[(pid, unique[pid]) for pid in unique]\<close> reads every key of the dictionary with
  its own value, which is the list of its items.
\<close>

fun dedup_loop :: "product list \<Rightarrow> product list \<Rightarrow> product list" where
  "dedup_loop unique [] = unique"
| "dedup_loop unique ((pid, title) # ps) =
     (if pid \<noteq> [] \<and> map_of unique pid = None then dedup_loop (unique @ [(pid, title)]) ps
      else dedup_loop unique ps)"

definition parse_products_from_html ::
  "(pystr \<Rightarrow> soup) \<Rightarrow> (pystr \<Rightarrow> exn + pystr) \<Rightarrow> pystr \<Rightarrow> exn + product list"
where
  "parse_products_from_html BeautifulSoup urlparse_path html_text =
     (let sp = BeautifulSoup html_text; products = [] in
      case link_loop urlparse_path (str ''/hotwheels/'') products (find_all_a sp) of
        Inl e \<Rightarrow> Inl e
      | Inr products \<Rightarrow>
      (case (if products = []
             then link_loop urlparse_path (str ''/product/'') products (find_all_a sp)
             else Inr products) of
        Inl e \<Rightarrow> Inl e
      | Inr products \<Rightarrow>
      (let products = (if products = [] then tile_loop products (select_tiles sp) else products) in
      (case (if products = []
             then fallback_loop urlparse_path products (find_all_a sp)
             else Inr products) of
        Inl e \<Rightarrow> Inl e
      | Inr products \<Rightarrow> Inr (dedup_loop [] products)))))"

text \<open>
  The four tiers on their own, each the output of its loop from an empty list, and the
  selection the specification describes: the tiers in order, stopping at the first that
  yields a record (or raises).
\<close>

definition primary_tier :: "(pystr \<Rightarrow> exn + pystr) \<Rightarrow> soup \<Rightarrow> exn + product list" where
  "primary_tier urlparse_path sp = link_loop urlparse_path (str ''/hotwheels/'') [] (find_all_a sp)"

definition secondary_tier :: "(pystr \<Rightarrow> exn + pystr) \<Rightarrow> soup \<Rightarrow> exn + product list" where
  "secondary_tier urlparse_path sp = link_loop urlparse_path (str ''/product/'') [] (find_all_a sp)"

definition tertiary_tier :: "soup \<Rightarrow> exn + product list" where
  "tertiary_tier sp = Inr (tile_loop [] (select_tiles sp))"

definition fallback_tier :: "(pystr \<Rightarrow> exn + pystr) \<Rightarrow> soup \<Rightarrow> exn + product list" where
  "fallback_tier urlparse_path sp = fallback_loop urlparse_path [] (find_all_a sp)"

fun first_yielding :: "(exn + product list) list \<Rightarrow> exn + product list" where
  "first_yielding [] = Inr []"
| "first_yielding (Inl e # ts) = Inl e"
| "first_yielding (Inr ps # ts) = (if ps \<noteq> [] then Inr ps else first_yielding ts)"

definition tiers :: "(pystr \<Rightarrow> exn + pystr) \<Rightarrow> soup \<Rightarrow> (exn + product list) list" where
  "tiers urlparse_path sp =
     [primary_tier urlparse_path sp, secondary_tier urlparse_path sp,
      tertiary_tier sp, fallback_tier urlparse_path sp]"

text \<open>The keys of a list in order of first occurrence.\<close>

definition first_occurrences :: "'a list \<Rightarrow> 'a list" where
  "first_occurrences xs = rev (remdups (rev xs))"

section \<open>Building the URL\<close>

text \<open>
  \<open>urllib.parse.quote_plus\<close> on a \<open>str\<close>: the string is encoded in UTF-8 (which
  raises \<open>UnicodeEncodeError\<close> at the first lone surrogate), every byte outside
  the always-safe set is written as \<open>%XX\<close> in upper-case hexadecimal, and a space
  becomes \<open>+\<close>.
\<close>

definition encodable :: "nat \<Rightarrow> bool" where
  "encodable c \<longleftrightarrow> c < 55296 \<or> (57344 \<le> c \<and> c < 1114112)"

definition utf8 :: "nat \<Rightarrow> nat list" where
  "utf8 c =
     (if c < 128 then [c]
      else if c < 2048 then [192 + c div 64, 128 + c mod 64]
      else if c < 65536 then [224 + c div 4096, 128 + (c div 64) mod 64, 128 + c mod 64]
      else [240 + c div 262144, 128 + (c div 4096) mod 64, 128 + (c div 64) mod 64,
            128 + c mod 64])"

fun encode_utf8 :: "nat \<Rightarrow> pystr \<Rightarrow> exn + nat list" where
  "encode_utf8 i [] = Inr []"
| "encode_utf8 i (c # cs) =
     (if encodable c then
        (case encode_utf8 (Suc i) cs of Inl e \<Rightarrow> Inl e | Inr bs \<Rightarrow> Inr (utf8 c @ bs))
      else Inl (UnicodeEncodeError i))"

definition always_safe :: "nat \<Rightarrow> bool" where
  "always_safe b \<longleftrightarrow>
     (65 \<le> b \<and> b \<le> 90) \<or> (97 \<le> b \<and> b \<le> 122) \<or> (48 \<le> b \<and> b \<le> 57) \<or>
     b = 95 \<or> b = 46 \<or> b = 45 \<or> b = 126"

definition hex_digit :: "nat \<Rightarrow> nat" where
  "hex_digit d = (if d < 10 then 48 + d else 55 + d)"

definition quote_byte :: "(nat \<Rightarrow> bool) \<Rightarrow> nat \<Rightarrow> pystr" where
  "quote_byte safe b =
     (if always_safe b \<or> safe b then [b] else [37, hex_digit (b div 16), hex_digit (b mod 16)])"

definition quote :: "pystr \<Rightarrow> (nat \<Rightarrow> bool) \<Rightarrow> exn + pystr" where
  "quote s safe =
     (case encode_utf8 0 s of Inl e \<Rightarrow> Inl e | Inr bs \<Rightarrow> Inr (concat (map (quote_byte safe) bs)))"

definition quote_plus :: "pystr \<Rightarrow> exn + pystr" where
  "quote_plus s =
     (if 32 \<notin> set s then quote s (\<lambda>b. False)
      else (case quote s (\<lambda>b. b = 32) of
              Inl e \<Rightarrow> Inl e
            | Inr q \<Rightarrow> Inr (map (\<lambda>c. if c = 32 then 43 else c) q)))"

text \<open>The configuration read from the environment when the module is loaded.\<close>

record config =
  SEARCH_QUERY :: pystr
  FIRSTCRY_SEARCH_URL :: pystr
  SMTP_HOST :: pystr
  SMTP_PORT :: int
  SMTP_USER :: pystr
  SMTP_PASS :: pystr
  EMAIL_TO :: pystr
  SHOW_SAMPLE :: bool

definition build_fetch_url :: "config \<Rightarrow> pystr \<Rightarrow> exn + pystr" where
  "build_fetch_url cfg query =
     (if startswith (lower query) (str ''http://'') \<or> startswith (lower query) (str ''https://'')
      then Inr query
      else (case quote_plus query of
              Inl e \<Rightarrow> Inl e
            | Inr q \<Rightarrow> Inr (FIRSTCRY_SEARCH_URL cfg @ q)))"

section \<open>The world of a run\<close>

text \<open>
  What the libraries answer is fixed by an environment: the outcome of the \<open>k\<close>-th
  call of \<open>requests.get\<close> (a response, or the exception it raises), the exception
  (if any) of the \<open>k\<close>-th operation on the database connection and of the \<open>k\<close>-th
  mail session, the \<open>k\<close>-th reading of the clock, the HTML parser, \<open>urlparse\<close>
  and \<open>repr\<close> on exceptions.
\<close>

record response =
  status_code :: int
  resp_text :: pystr

record env =
  requests_get :: "nat \<Rightarrow> pystr \<Rightarrow> exn + response"
  sqlite_fault :: "nat \<Rightarrow> exn option"
  smtp_fault :: "nat \<Rightarrow> exn option"
  time_time :: "nat \<Rightarrow> int"
  BeautifulSoup :: "pystr \<Rightarrow> soup"
  urlparse_path :: "pystr \<Rightarrow> exn + pystr"
  repr :: "exn \<Rightarrow> pystr"

text \<open>
  The table \<open>products\<close>: rows \<open>(product_id, title, last_seen)\<close> with
  \<open>product_id\<close> as primary key.  The database file holds the committed table, or no
  table before the first run.
\<close>

type_synonym row = "pystr \<times> pystr \<times> int"
type_synonym table = "row list"

record email =
  From :: pystr
  To :: pystr
  Subject :: pystr
  content :: pystr

text \<open>
  The state a run changes: the database file, the counters of the calls made so far,
  the durations slept, the lines printed and the messages handed to the mail server.
\<close>

record world =
  disk :: "table option"
  http_calls :: nat
  db_ops :: nat
  smtp_sessions :: nat
  clock_reads :: nat
  slept :: "int list"
  stdout :: "pystr list"
  outbox :: "email list"

text \<open>
  A statement of the program is a function from the world to a result, a value or the
  exception raised, and the new world; \<open>then_do\<close> runs the next statement unless
  the first one raised.
\<close>

type_synonym 'a stmt = "world \<Rightarrow> (exn + 'a) \<times> world"

definition then_do :: "'a stmt \<Rightarrow> ('a \<Rightarrow> 'b stmt) \<Rightarrow> 'b stmt" where
  "then_do m f = (\<lambda>w. case m w of (Inl e, w') \<Rightarrow> (Inl e, w') | (Inr a, w') \<Rightarrow> f a w')"

definition return :: "'a \<Rightarrow> 'a stmt" where
  "return a = (\<lambda>w. (Inr a, w))"

definition raise :: "exn \<Rightarrow> 'a stmt" where
  "raise e = (\<lambda>w. (Inl e, w))"

definition lift :: "exn + 'a \<Rightarrow> 'a stmt" where
  "lift r = (\<lambda>w. (r, w))"

definition print :: "pystr \<Rightarrow> unit stmt" where
  "print line = (\<lambda>w. (Inr (), w\<lparr>stdout := stdout w @ [line]\<rparr>))"

text \<open>\<open>str(n)\<close> for an integer, as the f-strings of the messages format it.\<close>

fun str_nat :: "nat \<Rightarrow> pystr" where
  "str_nat n = (if n < 10 then [48 + n] else str_nat (n div 10) @ [48 + n mod 10])"

definition str_int :: "int \<Rightarrow> pystr" where
  "str_int i = (if i < 0 then 45 # str_nat (nat (- i)) else str_nat (nat i))"

section \<open>The fetcher\<close>

definition raise_for_status :: "response \<Rightarrow> exn + unit" where
  "raise_for_status r =
     (if 400 \<le> status_code r \<and> status_code r < 600 then Inl (HTTPError (status_code r))
      else Inr ())"

text \<open>The \<open>try\<close> block of the loop: \<open>requests.get\<close>, then \<open>raise_for_status\<close>.\<close>

definition try_get :: "env \<Rightarrow> pystr \<Rightarrow> response stmt" where
  "try_get ev url = (\<lambda>w.
     let w1 = w\<lparr>http_calls := http_calls w + 1\<rparr> in
     case requests_get ev (http_calls w) url of
       Inl e \<Rightarrow> (Inl e, w1)
     | Inr r \<Rightarrow> (case raise_for_status r of Inl e \<Rightarrow> (Inl e, w1) | Inr u \<Rightarrow> (Inr r, w1)))"

text \<open>\<open>time.sleep\<close> raises \<open>ValueError\<close> on a negative duration.\<close>

definition time_sleep :: "int \<Rightarrow> unit stmt" where
  "time_sleep wait = (\<lambda>w.
     if wait < 0 then (Inl (ValueError (str ''sleep length must be non-negative'')), w)
     else (Inr (), w\<lparr>slept := slept w @ [wait]\<rparr>))"

text \<open>
  The loop \<open>for attempt in range(1, retries + 2)\<close>, from \<open>attempt\<close> on.  When the
  range is exhausted without a \<open>return\<close> or a \<open>raise\<close> the function returns
  \<open>None\<close>.
\<close>

function retry_loop :: "env \<Rightarrow> pystr \<Rightarrow> int \<Rightarrow> int \<Rightarrow> int \<Rightarrow> (response option) stmt" where
  "retry_loop ev url retries backoff attempt w =
     (if attempt < retries + 2 then
        (case try_get ev url w of
           (Inr r, w1) \<Rightarrow> (Inr (Some r), w1)
         | (Inl e, w1) \<Rightarrow>
             if attempt \<le> retries then
               (let wait = backoff * attempt in
                case then_do
                       (print (str ''Request failed (attempt '' @ str_int attempt @ str '') ''
                          @ em_dash @ str '' retrying in '' @ str_int wait @ str ''s...''))
                       (\<lambda>u. time_sleep wait) w1 of
                  (Inl e', w2) \<Rightarrow> (Inl e', w2)
                | (Inr u, w2) \<Rightarrow> retry_loop ev url retries backoff (attempt + 1) w2)
             else (Inl e, w1))
      else (Inr None, w))"
  by pat_completeness auto
termination
  by (relation "measure (\<lambda>(ev, url, retries, backoff, attempt, w). nat (retries + 2 - attempt))")
    auto

declare retry_loop.simps [simp del]

definition requests_get_with_retry :: "env \<Rightarrow> pystr \<Rightarrow> int \<Rightarrow> int \<Rightarrow> (response option) stmt" where
  "requests_get_with_retry ev url retries backoff = retry_loop ev url retries backoff 1"

text \<open>
  \<open>fetch_search_html\<close> calls with the defaults \<open>retries=2\<close>, \<open>backoff=2\<close>; the
  headers and the timeout go to \<open>requests.get\<close>, whose outcome the environment
  gives.  Reading \<open>r.text\<close> on \<open>None\<close> raises \<open>AttributeError\<close>.
\<close>

definition fetch_search_html :: "config \<Rightarrow> env \<Rightarrow> pystr \<Rightarrow> pystr stmt" where
  "fetch_search_html cfg ev query =
     then_do (lift (build_fetch_url cfg query)) (\<lambda>url.
     then_do (print (str ''Fetching URL: '' @ url)) (\<lambda>u.
     then_do (requests_get_with_retry ev url 2 2) (\<lambda>r.
       case r of
         None \<Rightarrow> raise (AttributeError (str ''NoneType object has no attribute text''))
       | Some r \<Rightarrow> return (resp_text r))))"

section \<open>The store\<close>

text \<open>
  One operation on the database connection (\<open>connect\<close>, \<open>execute\<close>, \<open>commit\<close>):
  it raises what the environment says for that operation.
\<close>

definition db_op :: "env \<Rightarrow> unit stmt" where
  "db_op ev = (\<lambda>w.
     let w1 = w\<lparr>db_ops := db_ops w + 1\<rparr> in
     case sqlite_fault ev (db_ops w) of Some e \<Rightarrow> (Inl e, w1) | None \<Rightarrow> (Inr (), w1))"

definition stored_rows :: "table option \<Rightarrow> table" where
  "stored_rows d = (case d of None \<Rightarrow> [] | Some t \<Rightarrow> t)"

text \<open>
  \<open>ensure_db\<close>: connect, \<open>CREATE TABLE IF NOT EXISTS\<close> (a schema statement, which
  \<open>sqlite3\<close> runs outside a transaction), commit.  The connection returned sees the
  rows of the file.
\<close>

definition ensure_db :: "env \<Rightarrow> table stmt" where
  "ensure_db ev =
     then_do (db_op ev) (\<lambda>u.
     then_do (db_op ev) (\<lambda>u.
     then_do (\<lambda>w. (Inr (), w\<lparr>disk := Some (stored_rows (disk w))\<rparr>)) (\<lambda>u.
     then_do (db_op ev) (\<lambda>u.
     (\<lambda>w. (Inr (stored_rows (disk w)), w))))))"

text \<open>
  The statements of the loop on the connection's view of the table.  The rows they
  write stay in the connection's transaction until \<open>conn.commit()\<close>; a connection
  dropped without a commit leaves the file as it was.
\<close>

definition select_product_id :: "table \<Rightarrow> pystr \<Rightarrow> row option" where
  "select_product_id tbl pid = find (\<lambda>r. fst r = pid) tbl"

definition insert_or_replace :: "table \<Rightarrow> row \<Rightarrow> table" where
  "insert_or_replace tbl new = filter (\<lambda>r. fst r \<noteq> fst new) tbl @ [new]"

definition update_last_seen :: "table \<Rightarrow> int \<Rightarrow> pystr \<Rightarrow> table" where
  "update_last_seen tbl now pid = map (\<lambda>(p, t, s). if p = pid then (p, t, now) else (p, t, s)) tbl"

definition commit :: "env \<Rightarrow> table \<Rightarrow> unit stmt" where
  "commit ev tbl = then_do (db_op ev) (\<lambda>u w. (Inr (), w\<lparr>disk := Some tbl\<rparr>))"

section \<open>Sending mail\<close>

text \<open>
  \<open>send_email\<close>: without a full configuration it prints two lines and returns.
  Otherwise the message is built and a mail session is run; the environment says
  whether that raises, and if not the message is handed over.
\<close>

definition send_email :: "config \<Rightarrow> env \<Rightarrow> pystr \<Rightarrow> pystr \<Rightarrow> unit stmt" where
  "send_email cfg ev subject body =
     (if SMTP_HOST cfg = [] \<or> SMTP_USER cfg = [] \<or> SMTP_PASS cfg = [] \<or> EMAIL_TO cfg = [] then
        then_do (print (str ''Email not configured properly. Skipping email send.'')) (\<lambda>u.
        print (str ''Subject: '' @ subject))
      else
        (\<lambda>w.
           let w1 = w\<lparr>smtp_sessions := smtp_sessions w + 1\<rparr> in
           case smtp_fault ev (smtp_sessions w) of
             Some e \<Rightarrow> (Inl e, w1)
           | None \<Rightarrow>
               print (str ''Email sent: '' @ subject)
                 (w1\<lparr>outbox := outbox w1 @
                    [\<lparr>From = SMTP_USER cfg, To = EMAIL_TO cfg, Subject = subject,
                      content = body\<rparr>]\<rparr>)))"

section \<open>The run\<close>

text \<open>Lines 197 to 200: the sample of the first ten products.\<close>

fun print_samples :: "int \<Rightarrow> product list \<Rightarrow> unit stmt" where
  "print_samples i [] = return ()"
| "print_samples i ((pid, title) # ps) =
     then_do (print (str_int i @ str ''. '' @ title @ str '' '' @ em_dash @ str '' id: '' @ pid))
       (\<lambda>u. print_samples (i + 1) ps)"

definition show_sample :: "config \<Rightarrow> product list \<Rightarrow> unit stmt" where
  "show_sample cfg products =
     (if SHOW_SAMPLE cfg then
        then_do (print (str ''First 10 parsed products (sample):'')) (\<lambda>u.
        print_samples 1 (take 10 products))
      else return ())"

text \<open>\<open>int(time.time())\<close>\<close>

definition time_now :: "env \<Rightarrow> int stmt" where
  "time_now ev = (\<lambda>w. (Inr (time_time ev (clock_reads w)), w\<lparr>clock_reads := clock_reads w + 1\<rparr>))"

text \<open>
  Lines 206 to 214: the loop over the products, on the connection's table \<open>tbl\<close>,
  with the list \<open>new_found\<close>.
\<close>

fun process_loop :: "env \<Rightarrow> int \<Rightarrow> table \<Rightarrow> product list \<Rightarrow> product list \<Rightarrow> (table \<times> product list) stmt"
where
  "process_loop ev now tbl new_found [] = return (tbl, new_found)"
| "process_loop ev now tbl new_found ((pid, title) # ps) =
     then_do (db_op ev) (\<lambda>u.
       if select_product_id tbl pid = None then
         then_do (db_op ev) (\<lambda>u.
           process_loop ev now (insert_or_replace tbl (pid, title, now))
             (new_found @ [(pid, title)]) ps)
       else
         then_do (db_op ev) (\<lambda>u.
           process_loop ev now (update_last_seen tbl now pid) new_found ps))"

text \<open>
  Lines 202 to 216: the clock is read, the rows are counted, the loop runs, the
  transaction is committed; the result is \<open>(new_found, prev_count, curr_count)\<close>.
\<close>

definition detect_changes :: "env \<Rightarrow> table \<Rightarrow> product list \<Rightarrow> (product list \<times> int \<times> int) stmt" where
  "detect_changes ev tbl products =
     then_do (time_now ev) (\<lambda>now.
     then_do (db_op ev) (\<lambda>u.
     let prev_count = int (length tbl) in
     then_do (process_loop ev now tbl [] products) (\<lambda>(tbl', new_found).
     then_do (commit ev tbl') (\<lambda>u.
     let curr_count = int (length products) in
     return (new_found, prev_count, curr_count)))))"

text \<open>Lines 218 to 229: the report and the decision to notify.\<close>

definition new_items_subject :: "config \<Rightarrow> pystr" where
  "new_items_subject cfg = str ''[FirstCry] New items for '' @ SEARCH_QUERY cfg"

definition item_line :: "product \<Rightarrow> pystr" where
  "item_line p = bullet @ str '' '' @ snd p @ str '' '' @ em_dash @ str '' id: '' @ fst p"

definition new_items_lines :: "config \<Rightarrow> product list \<Rightarrow> pystr list" where
  "new_items_lines cfg new_found =
     (str ''New items found for '' @ [39] @ SEARCH_QUERY cfg @ [39] @ str '' on FirstCry (''
        @ str_int (int (length new_found)) @ str ''):'') # map item_line new_found"

definition count_subject :: "config \<Rightarrow> pystr" where
  "count_subject cfg = str ''[FirstCry] Count increased for '' @ SEARCH_QUERY cfg"

definition count_body :: "int \<Rightarrow> int \<Rightarrow> pystr" where
  "count_body prev_count curr_count =
     str ''Count: '' @ str_int prev_count @ str '' '' @ arrow @ str '' '' @ str_int curr_count"

definition notify :: "config \<Rightarrow> env \<Rightarrow> product list \<Rightarrow> int \<Rightarrow> int \<Rightarrow> unit stmt" where
  "notify cfg ev new_found prev_count curr_count =
     then_do (print (str ''Parsed products: '' @ str_int curr_count @ str '' (previous stored: ''
                @ str_int prev_count @ str '')'')) (\<lambda>u.
     if new_found \<noteq> [] then
       send_email cfg ev (new_items_subject cfg) (join [10] (new_items_lines cfg new_found))
     else if curr_count > prev_count then
       send_email cfg ev (count_subject cfg) (count_body prev_count curr_count)
     else print (str ''No new items found this run.''))"

text \<open>
  The body of the \<open>try\<close> of \<open>main\<close>, in three parts: lines 186 to 189 up to the
  connection, the fetch of line 191, and lines 192 to 231.
\<close>

definition startup :: "config \<Rightarrow> env \<Rightarrow> table stmt" where
  "startup cfg ev =
     then_do (print (replicate 40 61)) (\<lambda>u.
     then_do (print (str ''FirstCry Monitor '' @ em_dash @ str '' query: '' @ [39]
                @ SEARCH_QUERY cfg @ [39])) (\<lambda>u.
     ensure_db ev))"

definition small_html_error :: exn where
  "small_html_error =
     RuntimeError (str ''Fetched HTML is suspiciously small '' @ em_dash
       @ str '' possible blocking or incorrect URL.'')"

definition after_fetch :: "config \<Rightarrow> env \<Rightarrow> table \<Rightarrow> pystr \<Rightarrow> unit stmt" where
  "after_fetch cfg ev tbl html_text =
     (if html_text = [] \<or> length html_text < 100 then raise small_html_error
      else
        then_do (lift (parse_products_from_html (BeautifulSoup ev) (urlparse_path ev) html_text))
          (\<lambda>products.
        then_do (show_sample cfg products) (\<lambda>u.
        then_do (detect_changes ev tbl products) (\<lambda>(new_found, prev_count, curr_count).
        then_do (notify cfg ev new_found prev_count curr_count) (\<lambda>u.
        print (str ''Run complete.''))))))"

definition main_body :: "config \<Rightarrow> env \<Rightarrow> unit stmt" where
  "main_body cfg ev =
     then_do (startup cfg ev) (\<lambda>tbl.
     then_do (fetch_search_html cfg ev (SEARCH_QUERY cfg)) (\<lambda>html_text.
     after_fetch cfg ev tbl html_text))"

text \<open>
  The handler of \<open>main\<close>: the exception is printed, \<open>send_email\<close> is tried, and an
  exception of that call is dropped.  The connection is dropped with the frame of
  \<open>main\<close>, so what was not committed is not in the file.
\<close>

definition error_subject :: "config \<Rightarrow> pystr" where
  "error_subject cfg = str ''[FirstCry Monitor] Error for '' @ SEARCH_QUERY cfg"

definition handler :: "config \<Rightarrow> env \<Rightarrow> exn \<Rightarrow> unit stmt" where
  "handler cfg ev e =
     then_do (print (str ''Error: '' @ repr ev e)) (\<lambda>u w.
       case send_email cfg ev (error_subject cfg) (repr ev e) w of
         (Inl e', w') \<Rightarrow> (Inr (), w')
       | (Inr u', w') \<Rightarrow> (Inr (), w'))"

definition main :: "config \<Rightarrow> env \<Rightarrow> unit stmt" where
  "main cfg ev = (\<lambda>w.
     case main_body cfg ev w of
       (Inr u, w') \<Rightarrow> (Inr (), w')
     | (Inl e, w') \<Rightarrow> handler cfg ev e w')"

section \<open>Notions used in the statements\<close>

text \<open>
  What the \<open>k\<close>-th attempt of a fetch comes to: the response, or the exception of
  \<open>requests.get\<close> or of \<open>raise_for_status\<close>.
\<close>

definition attempt_outcome :: "env \<Rightarrow> pystr \<Rightarrow> nat \<Rightarrow> exn + response" where
  "attempt_outcome ev url k =
     (case requests_get ev k url of
        Inl e \<Rightarrow> Inl e
      | Inr r \<Rightarrow> (case raise_for_status r of Inl e \<Rightarrow> Inl e | Inr u \<Rightarrow> Inr r))"

text \<open>
  The decoder of the encoding of \<open>quote_plus\<close>: \<open>+\<close> is a space, \<open>%XX\<close> the
  byte with that hexadecimal value, any other character itself.
\<close>

fun hex_value :: "nat \<Rightarrow> nat" where
  "hex_value h = (if 48 \<le> h \<and> h \<le> 57 then h - 48 else if 65 \<le> h \<and> h \<le> 70 then h - 55 else h - 87)"

fun unquote_plus_bytes :: "pystr \<Rightarrow> nat list" where
  "unquote_plus_bytes (c # h # l # cs) =
     (if c = 37 then (16 * hex_value h + hex_value l) # unquote_plus_bytes cs
      else (if c = 43 then 32 else c) # unquote_plus_bytes (h # l # cs))"
| "unquote_plus_bytes (c # cs) = (if c = 43 then 32 else c) # unquote_plus_bytes cs"
| "unquote_plus_bytes [] = []"

text \<open>
  A row after a run that saw the ids \<open>ids\<close> at time \<open>now\<close>: a row with one of the
  ids has its \<open>last_seen\<close> set and keeps its title.
\<close>

definition touch :: "int \<Rightarrow> pystr set \<Rightarrow> row \<Rightarrow> row" where
  "touch now ids r = (if fst r \<in> ids then (fst r, fst (snd r), now) else r)"


text \<open>
  What the statements outside the change detection leave alone: the database file, the
  counters of the database operations and of the clock, and the mail.
\<close>

definition keeps_store :: "world \<Rightarrow> world \<Rightarrow> bool" where
  "keeps_store w w' \<longleftrightarrow>
     disk w' = disk w \<and> db_ops w' = db_ops w \<and> clock_reads w' = clock_reads w \<and>
     smtp_sessions w' = smtp_sessions w \<and> outbox w' = outbox w"

section \<open>Sample worlds\<close>

text \<open>
  The configuration with the defaults of the source and no mail credentials, and the
  same with credentials.
\<close>

definition demo_cfg :: config where
  "demo_cfg = \<lparr>SEARCH_QUERY = str ''hot wheels'',
     FIRSTCRY_SEARCH_URL = str ''https://www.firstcry.com/search?query='',
     SMTP_HOST = str ''smtp.gmail.com'', SMTP_PORT = 587, SMTP_USER = [], SMTP_PASS = [],
     EMAIL_TO = [], SHOW_SAMPLE = False\<rparr>"

definition mail_cfg :: config where
  "mail_cfg = demo_cfg\<lparr>SMTP_USER := str ''monitor@example.com'', SMTP_PASS := str ''secret'',
     EMAIL_TO := str ''owner@example.com''\<rparr>"

text \<open>
  A first run on an empty database file, and an environment in which the first request
  times out, the second is answered with status 503 and the third with a page of 13
  characters; nothing else fails.
\<close>

definition fresh_world :: world where
  "fresh_world = \<lparr>disk = None, http_calls = 0, db_ops = 0, smtp_sessions = 0, clock_reads = 0,
     slept = [], stdout = [], outbox = []\<rparr>"

definition flaky_env :: env where
  "flaky_env = \<lparr>
     requests_get = (\<lambda>k url.
        if k = 0 then Inl (RequestException (str ''timed out''))
        else if k = 1 then Inr \<lparr>status_code = 503, resp_text = []\<rparr>
        else Inr \<lparr>status_code = 200, resp_text = str ''<html></html>''\<rparr>),
     sqlite_fault = (\<lambda>k. None),
     smtp_fault = (\<lambda>k. None),
     time_time = (\<lambda>k. 1700000000),
     BeautifulSoup = (\<lambda>h. \<lparr>find_all_a = [], select_tiles = []\<rparr>),
     urlparse_path = (\<lambda>h. Inr h),
     repr = (\<lambda>e. str ''Exception()'')\<rparr>"

text \<open>
  A table with the ids \<open>A\<close> and \<open>B\<close>, a database file that holds it, and an
  extraction result \<open>[A, B, C]\<close>.
\<close>

definition seeded_table :: table where
  "seeded_table = [(str ''A'', str ''Car A'', 100), (str ''B'', str ''Car B'', 100)]"

definition seeded_world :: world where
  "seeded_world = fresh_world\<lparr>disk := Some seeded_table\<rparr>"

definition abc_products :: "product list" where
  "abc_products = [(str ''A'', str ''Car A again''), (str ''B'', str ''Car B''), (str ''C'', str ''Car C'')]"

text \<open>
  A shop page of three primary-tier anchors \<open>A\<close>, \<open>B\<close>, \<open>C\<close>, served at the
  first request in a body of 120 characters, with the faults of the database and of
  the mail server as parameters; and the fault of one operation.
\<close>

definition shop_soup :: soup where
  "shop_soup = \<lparr>find_all_a =
       [\<lparr>href = str ''/hotwheels/A'', get_text = str ''Car A''\<rparr>,
        \<lparr>href = str ''/hotwheels/B'', get_text = str ''Car B''\<rparr>,
        \<lparr>href = str ''/hotwheels/C'', get_text = str ''Car C''\<rparr>],
     select_tiles = []\<rparr>"

definition shop_env :: "(nat \<Rightarrow> exn option) \<Rightarrow> (nat \<Rightarrow> exn option) \<Rightarrow> env" where
  "shop_env db_faults mail_faults = \<lparr>
     requests_get = (\<lambda>k url. Inr \<lparr>status_code = 200, resp_text = replicate 120 32\<rparr>),
     sqlite_fault = db_faults,
     smtp_fault = mail_faults,
     time_time = (\<lambda>k. 1700000000),
     BeautifulSoup = (\<lambda>h. shop_soup),
     urlparse_path = (\<lambda>h. Inr h),
     repr = (\<lambda>e. str ''Exception()'')\<rparr>"

definition fault_at :: "nat \<Rightarrow> exn \<Rightarrow> nat \<Rightarrow> exn option" where
  "fault_at n e = (\<lambda>k. if k = n then Some e else None)"

section \<open>Properties of the extractor\<close>

subsection \<open>First occurrences\<close>

lemma first_occurrences_snoc:
  "first_occurrences (xs @ [x]) =
     (if x \<in> set xs then first_occurrences xs else first_occurrences xs @ [x])"
  by (simp add: first_occurrences_def)

lemma remdups_drop_seen: "x \<in> set ys \<Longrightarrow> remdups (xs @ x # ys) = remdups (xs @ ys)"
  by (induction xs) auto

lemma first_occurrences_drop_seen:
  "x \<in> set xs \<Longrightarrow> first_occurrences (xs @ x # ys) = first_occurrences (xs @ ys)"
  by (simp add: first_occurrences_def remdups_drop_seen)

lemma first_occurrences_distinct: "distinct xs \<Longrightarrow> first_occurrences xs = xs"
  by (simp add: first_occurrences_def distinct_remdups_id)

lemma distinct_first_occurrences: "distinct (first_occurrences xs)"
  by (simp add: first_occurrences_def)

lemma set_first_occurrences: "set (first_occurrences xs) = set xs"
  by (simp add: first_occurrences_def)

subsection \<open>The deduplication loop\<close>

lemma dedup_loop_keys:
  "distinct (map fst u) \<Longrightarrow>
   map fst (dedup_loop u ps) = first_occurrences (map fst u @ filter (\<lambda>k. k \<noteq> []) (map fst ps))"
proof (induction u ps rule: dedup_loop.induct)
  case (1 u)
  then show ?case by (simp add: first_occurrences_distinct)
next
  case (2 u pid title ps)
  show ?case
  proof (cases "pid \<noteq> [] \<and> map_of u pid = None")
    case True
    then have new: "pid \<notin> fst ` set u" by (simp add: map_of_eq_None_iff)
    with "2.prems" have "distinct (map fst (u @ [(pid, title)]))" by simp
    from "2.IH"(1) [OF True this] True show ?thesis by simp
  next
    case False
    note ih = "2.IH"(2) [OF False "2.prems"]
    show ?thesis
    proof (cases "pid = []")
      case True
      with ih show ?thesis by simp
    next
      case nonempty: False
      with False have seen: "pid \<in> set (map fst u)" by (auto simp: map_of_eq_None_iff)
      from False have "dedup_loop u ((pid, title) # ps) = dedup_loop u ps" by auto
      with ih nonempty seen show ?thesis by (simp add: first_occurrences_drop_seen)
    qed
  qed
qed

lemma dedup_loop_nonempty_keys:
  "[] \<notin> fst ` set u \<Longrightarrow> [] \<notin> fst ` set (dedup_loop u ps)"
  by (induction u ps rule: dedup_loop.induct) (auto split: if_splits)

lemma dedup_loop_first_title:
  "distinct (map fst u) \<Longrightarrow> [] \<notin> fst ` set u \<Longrightarrow> p \<in> set (dedup_loop u ps) \<Longrightarrow>
   map_of (u @ ps) (fst p) = Some (snd p)"
proof (induction u ps rule: dedup_loop.induct)
  case (1 u)
  then show ?case by (cases p) simp
next
  case (2 u pid title ps)
  show ?case
  proof (cases "pid \<noteq> [] \<and> map_of u pid = None")
    case True
    then have new: "pid \<notin> fst ` set u" by (simp add: map_of_eq_None_iff)
    with "2.prems" True have d: "distinct (map fst (u @ [(pid, title)]))"
      and n: "[] \<notin> fst ` set (u @ [(pid, title)])" by auto
    from True "2.prems"(3) have "p \<in> set (dedup_loop (u @ [(pid, title)]) ps)" by simp
    from "2.IH"(1) [OF True d n this] show ?thesis by simp
  next
    case False
    then have eq: "dedup_loop u ((pid, title) # ps) = dedup_loop u ps" by auto
    with "2.prems" have mem: "p \<in> set (dedup_loop u ps)" by simp
    note ih = "2.IH"(2) [OF False "2.prems"(1,2) mem]
    have ne: "fst p \<noteq> []"
      using dedup_loop_nonempty_keys [OF "2.prems"(2), of ps] mem by force
    show ?thesis
    proof (cases "pid = []")
      case True
      with ih ne show ?thesis by (simp add: map_add_def split: option.splits)
    next
      case nonempty: False
      with False obtain t where "map_of u pid = Some t" by auto
      with ih show ?thesis by (auto simp: map_add_def split: option.splits)
    qed
  qed
qed

lemma dedup_loop_subset: "set (dedup_loop u ps) \<subseteq> set u \<union> set ps"
  by (induction u ps rule: dedup_loop.induct) (auto split: if_splits)

subsection \<open>Tier selection\<close>

lemma parse_selects:
  "parse_products_from_html bs up html_text =
     (case first_yielding (tiers up (bs html_text)) of
        Inl e \<Rightarrow> Inl e
      | Inr ps \<Rightarrow> Inr (dedup_loop [] ps))"
  by (simp add: parse_products_from_html_def tiers_def primary_tier_def secondary_tier_def
      tertiary_tier_def fallback_tier_def Let_def split: sum.splits)

text \<open>
  \<open>split_on\<close> never returns the empty list, so the \<open>[-1]\<close> and \<open>[0]\<close> of the
  fallback loop read an element; and every list the extraction returns has pairwise
  distinct ids.
\<close>

lemma split_on_not_Nil: "split_on sep w s \<noteq> []"
  by (induction s arbitrary: w) auto

lemma parse_result_distinct:
  assumes "parse_products_from_html bs up html_text = Inr r"
  shows "distinct (map fst r)"
proof -
  from assms obtain ps where "r = dedup_loop [] ps"
    by (auto simp: parse_selects split: sum.splits)
  with dedup_loop_keys [of "[]" ps]
  have "map fst r = first_occurrences (filter (\<lambda>k. k \<noteq> []) (map fst ps))" by simp
  then show ?thesis by (simp only: distinct_first_occurrences)
qed

text \<open>
  Claim C1.  For every HTML input the extraction goes through the four tiers in the
  order primary, secondary, tertiary, fallback, and its result is the deduplicated
  output of the first tier that yields a record (an exception of a tier that is reached
  leaves the extraction); every record returned is a record of that one tier, so no
  later tier contributes and the result never mixes two tiers.
\<close>

theorem tiers_in_order_no_mixing:
  "parse_products_from_html bs up html_text =
     (case first_yielding (tiers up (bs html_text)) of
        Inl e \<Rightarrow> Inl e
      | Inr ps \<Rightarrow> Inr (dedup_loop [] ps)) \<and>
   (\<forall>ps. first_yielding (tiers up (bs html_text)) = Inr ps \<longrightarrow>
      set (dedup_loop [] ps) \<subseteq> set ps)"
  using dedup_loop_subset [of "[]"] by (simp add: parse_selects)

text \<open>
  A page with a secondary-tier anchor and an anchor only the fallback would take: the
  result is the secondary tier's record alone.
\<close>

theorem tiers_in_order_no_mixing_witness:
  "parse_products_from_html
     (\<lambda>_. \<lparr>find_all_a = [\<lparr>href = str ''/product/123'', get_text = str ''Car One''\<rparr>,
                         \<lparr>href = str ''/about-us'', get_text = str ''About us''\<rparr>],
           select_tiles = []\<rparr>) (\<lambda>h. Inr h) (str ''<html>'')
   = Inr [(str ''123'', str ''Car One'')] \<and>
   first_yielding (tiers (\<lambda>h. Inr h)
     \<lparr>find_all_a = [\<lparr>href = str ''/product/123'', get_text = str ''Car One''\<rparr>,
                    \<lparr>href = str ''/about-us'', get_text = str ''About us''\<rparr>],
      select_tiles = []\<rparr>) = Inr [(str ''123'', str ''Car One'')]"
  using tiers_in_order_no_mixing
    [of "\<lambda>_. \<lparr>find_all_a = [\<lparr>href = str ''/product/123'', get_text = str ''Car One''\<rparr>,
                         \<lparr>href = str ''/about-us'', get_text = str ''About us''\<rparr>],
           select_tiles = []\<rparr>" "\<lambda>h. Inr h" "str ''<html>''"]
  by (simp add: tiers_def primary_tier_def secondary_tier_def strip_def is_space_def)

text \<open>
  Claim C3.  The list returned by the extraction has one record for each non-empty id
  of the chosen tier and none for the empty id: its ids are pairwise distinct and
  non-empty, they are the non-empty ids of the tier in order of first occurrence, and
  each carries the title of its first occurrence in the tier.
\<close>

theorem extraction_dedup_first_seen:
  assumes "parse_products_from_html bs up html_text = Inr r"
  shows "distinct (map fst r) \<and> [] \<notin> set (map fst r) \<and>
    (\<exists>ps. first_yielding (tiers up (bs html_text)) = Inr ps \<and>
       map fst r = first_occurrences (filter (\<lambda>k. k \<noteq> []) (map fst ps)) \<and>
       set (map fst r) = set (map fst ps) - {[]} \<and>
       (\<forall>p \<in> set r. map_of ps (fst p) = Some (snd p)))"
proof -
  from assms obtain ps where
    sel: "first_yielding (tiers up (bs html_text)) = Inr ps" and
    r: "r = dedup_loop [] ps"
    by (auto simp: parse_selects split: sum.splits)
  have keys: "map fst r = first_occurrences (filter (\<lambda>k. k \<noteq> []) (map fst ps))"
    using dedup_loop_keys [of "[]" ps] r by simp
  have d: "distinct (map fst r)"
    by (simp only: keys distinct_first_occurrences)
  have s: "set (map fst r) = set (map fst ps) - {[]}"
    by (simp only: keys set_first_occurrences) auto
  have t: "\<forall>p \<in> set r. map_of ps (fst p) = Some (snd p)"
    using dedup_loop_first_title [of "[]" _ ps] r by simp
  from s have "[] \<notin> set (map fst r)" by simp
  with d sel keys s t show ?thesis by blast
qed

text \<open>
  Two primary-tier anchors with the same derived id and different titles: one record,
  titled with the first anchor's text.
\<close>

theorem extraction_dedup_first_seen_witness:
  "parse_products_from_html
     (\<lambda>_. \<lparr>find_all_a = [\<lparr>href = str ''/hotwheels/car-1'', get_text = str ''Red Car''\<rparr>,
                         \<lparr>href = str ''/hotwheels/5/car-1'', get_text = str ''Blue Car''\<rparr>],
           select_tiles = []\<rparr>) (\<lambda>h. Inr h) (str ''<html>'')
   = Inr [(str ''car-1'', str ''Red Car'')] \<and>
   distinct (map fst [(str ''car-1'', str ''Red Car'')]) \<and>
   map_of [(str ''car-1'', str ''Red Car''), (str ''car-1'', str ''Blue Car'')] (str ''car-1'')
     = Some (str ''Red Car'')"
proof -
  have run: "parse_products_from_html
     (\<lambda>_. \<lparr>find_all_a = [\<lparr>href = str ''/hotwheels/car-1'', get_text = str ''Red Car''\<rparr>,
                         \<lparr>href = str ''/hotwheels/5/car-1'', get_text = str ''Blue Car''\<rparr>],
           select_tiles = []\<rparr>) (\<lambda>h. Inr h) (str ''<html>'')
   = Inr [(str ''car-1'', str ''Red Car'')]"
    by (simp add: parse_products_from_html_def strip_def is_space_def)
  from extraction_dedup_first_seen [OF run] run show ?thesis by simp
qed

section \<open>Properties of the URL builder\<close>

lemma startswith_take: "startswith s p \<longleftrightarrow> take (length p) s = p"
  by (induction s p rule: startswith.induct) auto

lemma unquote_plain: "c \<noteq> 37 \<Longrightarrow> unquote_plus_bytes (c # cs) = (if c = 43 then 32 else c) # unquote_plus_bytes cs"
  by (cases "(c # cs)" rule: unquote_plus_bytes.cases) auto

lemma hex_value_digit: "d < 16 \<Longrightarrow> hex_value (hex_digit d) = d"
  by (auto simp: hex_digit_def)

lemma unquote_escape:
  "b < 256 \<Longrightarrow> unquote_plus_bytes (37 # hex_digit (b div 16) # hex_digit (b mod 16) # cs) = b # unquote_plus_bytes cs"
proof -
  assume "b < 256"
  then have "b div 16 < 16" "b mod 16 < 16" by auto
  then have "hex_value (hex_digit (b div 16)) = b div 16" "hex_value (hex_digit (b mod 16)) = b mod 16"
    by (simp_all only: hex_value_digit)
  then show ?thesis by (simp del: hex_value.simps)
qed

lemma hex_digit_not_space: "hex_digit d \<noteq> 32"
  by (simp add: hex_digit_def)

lemma unquote_quote_byte_plain:
  "b < 256 \<Longrightarrow> unquote_plus_bytes (quote_byte (\<lambda>b. False) b @ cs) = b # unquote_plus_bytes cs"
  by (auto simp: quote_byte_def unquote_escape unquote_plain always_safe_def simp del: unquote_plus_bytes.simps)

lemma unquote_quote_byte_space:
  "b < 256 \<Longrightarrow>
   unquote_plus_bytes (map (\<lambda>c. if c = 32 then 43 else c) (quote_byte (\<lambda>b. b = 32) b) @ cs)
     = b # unquote_plus_bytes cs"
  by (auto simp: quote_byte_def unquote_escape unquote_plain always_safe_def hex_digit_not_space
      simp del: unquote_plus_bytes.simps)

lemma unquote_quote_plain:
  "\<forall>b \<in> set bs. b < 256 \<Longrightarrow> unquote_plus_bytes (concat (map (quote_byte (\<lambda>b. False)) bs)) = bs"
  by (induction bs) (simp_all add: unquote_quote_byte_plain del: unquote_plus_bytes.simps, simp)

lemma unquote_quote_space:
  "\<forall>b \<in> set bs. b < 256 \<Longrightarrow>
   unquote_plus_bytes (map (\<lambda>c. if c = 32 then 43 else c) (concat (map (quote_byte (\<lambda>b. b = 32)) bs))) = bs"
  by (induction bs) (simp_all add: unquote_quote_byte_space del: unquote_plus_bytes.simps, simp)

lemma utf8_bytes: "encodable c \<Longrightarrow> b \<in> set (utf8 c) \<Longrightarrow> b < 256"
proof -
  assume enc: "encodable c" and b: "b \<in> set (utf8 c)"
  have m: "c mod 64 < 64" "c div 64 mod 64 < 64" "c div 4096 mod 64 < 64" by simp_all
  have l2: "c < 2048 \<Longrightarrow> c div 64 < 32" by (rule less_mult_imp_div_less) simp
  have l3: "c < 65536 \<Longrightarrow> c div 4096 < 16" by (rule less_mult_imp_div_less) simp
  from enc have "c < 1114112" by (auto simp: encodable_def)
  then have "c < 5 * 262144" by simp
  then have l4: "c div 262144 < 5" by (rule less_mult_imp_div_less)
  show ?thesis
  proof (cases "c < 128")
    case True with b show ?thesis by (simp add: utf8_def)
  next
    case c1: False
    show ?thesis
    proof (cases "c < 2048")
      case True with c1 b l2 m show ?thesis by (auto simp: utf8_def)
    next
      case c2: False
      show ?thesis
      proof (cases "c < 65536")
        case True with c1 c2 b l3 m show ?thesis by (auto simp: utf8_def)
      next
        case False with c1 c2 b l4 m show ?thesis by (auto simp: utf8_def)
      qed
    qed
  qed
qed

lemma encode_utf8_bytes: "encode_utf8 i s = Inr bs \<Longrightarrow> \<forall>b \<in> set bs. b < 256"
  by (induction s arbitrary: i bs) (auto split: if_splits sum.splits dest: utf8_bytes)

lemma encode_utf8_total: "\<forall>c \<in> set s. encodable c \<Longrightarrow> \<exists>bs. encode_utf8 i s = Inr bs"
proof (induction s arbitrary: i)
  case Nil
  show ?case by simp
next
  case (Cons c s)
  then obtain bs where "encode_utf8 (Suc i) s = Inr bs" by fastforce
  with Cons.prems show ?case by simp
qed

lemma encode_utf8_fails: "encode_utf8 i s = Inl e \<Longrightarrow> \<exists>c \<in> set s. \<not> encodable c"
  by (induction s arbitrary: i) (auto split: sum.splits if_splits)

lemma hex_digit_safe: "d < 16 \<Longrightarrow> always_safe (hex_digit d)"
  by (simp add: hex_digit_def always_safe_def)

lemma quote_byte_chars:
  assumes "b < 256" and "c \<in> set (quote_byte safe b)"
  shows "always_safe c \<or> safe c \<or> c = 37"
proof (cases "always_safe b \<or> safe b")
  case True
  with assms(2) have "c = b" by (simp add: quote_byte_def)
  with True show ?thesis by blast
next
  case False
  with assms(2) have "c = 37 \<or> c = hex_digit (b div 16) \<or> c = hex_digit (b mod 16)"
    by (simp add: quote_byte_def)
  moreover from assms(1) have "b div 16 < 16" by simp
  moreover have "b mod 16 < 16" by simp
  ultimately show ?thesis using hex_digit_safe by blast
qed

lemma quote_chars:
  "\<forall>b \<in> set bs. b < 256 \<Longrightarrow> c \<in> set (concat (map (quote_byte safe) bs)) \<Longrightarrow>
   always_safe c \<or> safe c \<or> c = 37"
  by (auto dest: quote_byte_chars)

lemma quote_roundtrip_plain:
  "quote s (\<lambda>b. False) = Inr q \<Longrightarrow> encode_utf8 0 s = Inr (unquote_plus_bytes q)"
proof -
  assume a: "quote s (\<lambda>b. False) = Inr q"
  then obtain bs where e: "encode_utf8 0 s = Inr bs" and q: "q = concat (map (quote_byte (\<lambda>b. False)) bs)"
    by (auto simp: quote_def split: sum.splits)
  from encode_utf8_bytes [OF e] have "unquote_plus_bytes q = bs"
    unfolding q by (rule unquote_quote_plain)
  with e show ?thesis by simp
qed

lemma quote_roundtrip_space:
  "quote s (\<lambda>b. b = 32) = Inr q \<Longrightarrow>
   encode_utf8 0 s = Inr (unquote_plus_bytes (map (\<lambda>c. if c = 32 then 43 else c) q))"
proof -
  assume a: "quote s (\<lambda>b. b = 32) = Inr q"
  then obtain bs where e: "encode_utf8 0 s = Inr bs" and q: "q = concat (map (quote_byte (\<lambda>b. b = 32)) bs)"
    by (auto simp: quote_def split: sum.splits)
  from encode_utf8_bytes [OF e]
  have "unquote_plus_bytes (map (\<lambda>c. if c = 32 then 43 else c) q) = bs"
    unfolding q by (rule unquote_quote_space)
  with e show ?thesis by simp
qed

lemma quote_plus_roundtrip:
  "quote_plus s = Inr q \<Longrightarrow> encode_utf8 0 s = Inr (unquote_plus_bytes q)"
proof (cases "32 \<in> set s")
  case False
  assume "quote_plus s = Inr q"
  with False have "quote s (\<lambda>b. False) = Inr q" by (simp add: quote_plus_def)
  then show ?thesis by (rule quote_roundtrip_plain)
next
  case True
  assume "quote_plus s = Inr q"
  with True obtain q' where q': "quote s (\<lambda>b. b = 32) = Inr q'"
    and q: "q = map (\<lambda>c. if c = 32 then 43 else c) q'"
    by (auto simp: quote_plus_def split: sum.splits)
  from quote_roundtrip_space [OF q'] q show ?thesis by simp
qed

lemma quote_result_chars:
  "quote s safe = Inr q \<Longrightarrow> c \<in> set q \<Longrightarrow> always_safe c \<or> safe c \<or> c = 37"
proof -
  assume a: "quote s safe = Inr q" and c: "c \<in> set q"
  from a obtain bs where e: "encode_utf8 0 s = Inr bs" and q: "q = concat (map (quote_byte safe) bs)"
    by (auto simp: quote_def split: sum.splits)
  from quote_chars [OF encode_utf8_bytes [OF e]] c q show ?thesis by blast
qed

lemma quote_plus_chars:
  "quote_plus s = Inr q \<Longrightarrow> c \<in> set q \<Longrightarrow> always_safe c \<or> c = 37 \<or> c = 43"
proof (cases "32 \<in> set s")
  case False
  assume "quote_plus s = Inr q" and c: "c \<in> set q"
  with False have "quote s (\<lambda>b. False) = Inr q" by (simp add: quote_plus_def)
  from quote_result_chars [OF this c] show ?thesis by blast
next
  case True
  assume "quote_plus s = Inr q" and c: "c \<in> set q"
  with True obtain q' where q': "quote s (\<lambda>b. b = 32) = Inr q'"
    and q: "q = map (\<lambda>c. if c = 32 then 43 else c) q'"
    by (auto simp: quote_plus_def split: sum.splits)
  from c q obtain c' where c': "c' \<in> set q'" and cc: "c = (if c' = 32 then 43 else c')" by auto
  from quote_result_chars [OF q' c'] cc show ?thesis by auto
qed

lemma quote_plus_total: "\<forall>c \<in> set s. encodable c \<Longrightarrow> \<exists>q. quote_plus s = Inr q"
  using encode_utf8_total [of s 0] by (auto simp: quote_plus_def quote_def)

lemma quote_plus_fails: "quote_plus s = Inl e \<Longrightarrow> \<exists>c \<in> set s. \<not> encodable c"
  by (auto simp: quote_plus_def quote_def split: if_splits sum.splits dest: encode_utf8_fails)

text \<open>
  Claim C8.  A query that starts with \<open>http://\<close> or \<open>https://\<close> (the scheme in
  any letter case) is the URL, unchanged; any other query is percent-encoded by
  \<open>quote_plus\<close> and appended to the configured prefix.  The encoding consists of
  unreserved characters, \<open>%\<close> and \<open>+\<close> only, decodes to the UTF-8 bytes of the
  query, and exists whenever the query has no lone surrogate.
\<close>

theorem build_fetch_url_verbatim_or_encoded:
  "(take 7 (lower query) = str ''http://'' \<or> take 8 (lower query) = str ''https://'' \<longrightarrow>
      build_fetch_url cfg query = Inr query) \<and>
   (take 7 (lower query) \<noteq> str ''http://'' \<and> take 8 (lower query) \<noteq> str ''https://'' \<longrightarrow>
      build_fetch_url cfg query =
        (case quote_plus query of Inl e \<Rightarrow> Inl e | Inr q \<Rightarrow> Inr (FIRSTCRY_SEARCH_URL cfg @ q))) \<and>
   (\<forall>q. quote_plus query = Inr q \<longrightarrow>
      encode_utf8 0 query = Inr (unquote_plus_bytes q) \<and>
      (\<forall>c \<in> set q. always_safe c \<or> c = 37 \<or> c = 43)) \<and>
   ((\<forall>c \<in> set query. encodable c) \<longrightarrow> (\<exists>q. quote_plus query = Inr q))"
proof -
  have n7: "(7::nat) = length (str ''http://'')" and n8: "(8::nat) = length (str ''https://'')"
    by simp_all
  have p: "startswith (lower query) (str ''http://'') \<longleftrightarrow> take 7 (lower query) = str ''http://''"
    unfolding n7 by (rule startswith_take)
  have ps: "startswith (lower query) (str ''https://'') \<longleftrightarrow> take 8 (lower query) = str ''https://''"
    unfolding n8 by (rule startswith_take)
  have a: "take 7 (lower query) = str ''http://'' \<or> take 8 (lower query) = str ''https://'' \<longrightarrow>
      build_fetch_url cfg query = Inr query"
    unfolding build_fetch_url_def p ps by simp
  have b: "take 7 (lower query) \<noteq> str ''http://'' \<and> take 8 (lower query) \<noteq> str ''https://'' \<longrightarrow>
      build_fetch_url cfg query =
        (case quote_plus query of Inl e \<Rightarrow> Inl e | Inr q \<Rightarrow> Inr (FIRSTCRY_SEARCH_URL cfg @ q))"
    unfolding build_fetch_url_def p ps by simp
  have c: "\<forall>q. quote_plus query = Inr q \<longrightarrow>
      encode_utf8 0 query = Inr (unquote_plus_bytes q) \<and>
      (\<forall>c \<in> set q. always_safe c \<or> c = 37 \<or> c = 43)"
    using quote_plus_roundtrip quote_plus_chars by blast
  have d: "(\<forall>c \<in> set query. encodable c) \<longrightarrow> (\<exists>q. quote_plus query = Inr q)"
    using quote_plus_total by blast
  from a b c d show ?thesis by blast
qed


text \<open>
  The default query is encoded and appended; a category URL, here with an upper-case
  scheme, is kept as it is.
\<close>

theorem build_fetch_url_verbatim_or_encoded_witness:
  "build_fetch_url demo_cfg (str ''hot wheels'')
     = Inr (str ''https://www.firstcry.com/search?query=hot+wheels'') \<and>
   build_fetch_url demo_cfg (str ''HTTPS://www.firstcry.com/hotwheels/5'')
     = Inr (str ''HTTPS://www.firstcry.com/hotwheels/5'') \<and>
   quote_plus (str ''a&b c'') = Inr (str ''a%26b+c'') \<and>
   unquote_plus_bytes (str ''a%26b+c'') = str ''a&b c''"
proof -
  have q: "quote_plus (str ''hot wheels'') = Inr (str ''hot+wheels'')"
    by (simp add: quote_plus_def quote_def quote_byte_def always_safe_def encodable_def utf8_def)
  have q2: "quote_plus (str ''a&b c'') = Inr (str ''a%26b+c'')"
    by (simp add: quote_plus_def quote_def quote_byte_def always_safe_def encodable_def utf8_def
        hex_digit_def)
  have l1: "take 7 (lower (str ''hot wheels'')) \<noteq> str ''http://'' \<and>
            take 8 (lower (str ''hot wheels'')) \<noteq> str ''https://''"
    by (simp add: lower_def lower_cp_def)
  have l2: "take 8 (lower (str ''HTTPS://www.firstcry.com/hotwheels/5'')) = str ''https://''"
    by (simp add: lower_def lower_cp_def)
  from build_fetch_url_verbatim_or_encoded [of "str ''hot wheels''" demo_cfg] l1
  have "build_fetch_url demo_cfg (str ''hot wheels'') =
        (case quote_plus (str ''hot wheels'') of Inl e \<Rightarrow> Inl e
         | Inr q \<Rightarrow> Inr (FIRSTCRY_SEARCH_URL demo_cfg @ q))"
    by blast
  then have r1: "build_fetch_url demo_cfg (str ''hot wheels'')
     = Inr (str ''https://www.firstcry.com/search?query=hot+wheels'')"
    by (simp only: q sum.case) (simp add: demo_cfg_def)
  from build_fetch_url_verbatim_or_encoded
    [of "str ''HTTPS://www.firstcry.com/hotwheels/5''" demo_cfg] l2
  have r2: "build_fetch_url demo_cfg (str ''HTTPS://www.firstcry.com/hotwheels/5'')
     = Inr (str ''HTTPS://www.firstcry.com/hotwheels/5'')"
    by blast
  from build_fetch_url_verbatim_or_encoded [of "str ''a&b c''" demo_cfg] q2
  have "encode_utf8 0 (str ''a&b c'') = Inr (unquote_plus_bytes (str ''a%26b+c''))" by blast
  moreover have "encode_utf8 0 (str ''a&b c'') = Inr (str ''a&b c'')"
    by (simp add: encodable_def utf8_def)
  ultimately have r3: "unquote_plus_bytes (str ''a%26b+c'') = str ''a&b c''"
    by (simp only: sum.inject)
  from r1 r2 q2 r3 show ?thesis by blast
qed

section \<open>Properties of the fetcher\<close>

lemma try_get_outcome:
  "try_get ev url w = (attempt_outcome ev url (http_calls w), w\<lparr>http_calls := http_calls w + 1\<rparr>)"
  by (simp add: try_get_def attempt_outcome_def Let_def split: sum.splits)

lemma retry_loop_success:
  "attempt < retries + 2 \<Longrightarrow> attempt_outcome ev url (http_calls w) = Inr r \<Longrightarrow>
   retry_loop ev url retries backoff attempt w = (Inr (Some r), w\<lparr>http_calls := http_calls w + 1\<rparr>)"
  by (subst retry_loop.simps) (simp add: try_get_outcome)

lemma retry_loop_last_failure:
  "attempt < retries + 2 \<Longrightarrow> \<not> attempt \<le> retries \<Longrightarrow> attempt_outcome ev url (http_calls w) = Inl e \<Longrightarrow>
   retry_loop ev url retries backoff attempt w = (Inl e, w\<lparr>http_calls := http_calls w + 1\<rparr>)"
  by (subst retry_loop.simps) (simp add: try_get_outcome)

lemma retry_loop_retry:
  "attempt \<le> retries \<Longrightarrow> 0 \<le> backoff * attempt \<Longrightarrow> attempt_outcome ev url (http_calls w) = Inl e \<Longrightarrow>
   retry_loop ev url retries backoff attempt w =
   retry_loop ev url retries backoff (attempt + 1)
     (w\<lparr>http_calls := http_calls w + 1,
        stdout := stdout w @ [str ''Request failed (attempt '' @ str_int attempt @ str '') ''
                          @ em_dash @ str '' retrying in '' @ str_int (backoff * attempt) @ str ''s...''],
        slept := slept w @ [backoff * attempt]\<rparr>)"
  by (subst retry_loop.simps)
     (simp add: try_get_outcome then_do_def print_def time_sleep_def Let_def)

lemma retry_loop_spec:
  assumes "0 \<le> backoff" and "1 \<le> attempt" and "attempt \<le> retries + 1"
    and "retry_loop ev url retries backoff attempt w = (res, w')"
  shows "\<exists>n. 1 \<le> n \<and> int n \<le> retries + 2 - attempt \<and>
           http_calls w' = http_calls w + n \<and>
           slept w' = slept w @ map (\<lambda>i. backoff * int i) [nat attempt..<nat attempt + (n - 1)] \<and>
           (\<forall>i<n - 1. isl (attempt_outcome ev url (http_calls w + i))) \<and>
           (case res of
              Inl e \<Rightarrow> int n = retries + 2 - attempt \<and>
                       attempt_outcome ev url (http_calls w + (n - 1)) = Inl e
            | Inr None \<Rightarrow> False
            | Inr (Some r) \<Rightarrow> attempt_outcome ev url (http_calls w + (n - 1)) = Inr r)"
  using assms
proof (induction "nat (retries + 1 - attempt)" arbitrary: attempt w)
  case 0
  then have last: "attempt < retries + 2" "\<not> attempt \<le> retries" by simp_all
  show ?case
  proof (cases "attempt_outcome ev url (http_calls w)")
    case (Inl e)
    from retry_loop_last_failure [OF last Inl] "0.prems"(4)
    have "res = Inl e" "w' = w\<lparr>http_calls := http_calls w + 1\<rparr>" by simp_all
    with Inl last "0.prems" show ?thesis by (intro exI [of _ 1]) simp
  next
    case (Inr r)
    from retry_loop_success [OF last(1) Inr] "0.prems"(4)
    have "res = Inr (Some r)" "w' = w\<lparr>http_calls := http_calls w + 1\<rparr>" by simp_all
    with Inr last "0.prems" show ?thesis by (intro exI [of _ 1]) simp
  qed
next
  case (Suc k)
  then have more: "attempt \<le> retries" "attempt < retries + 2" by simp_all
  show ?case
  proof (cases "attempt_outcome ev url (http_calls w)")
    case (Inr r)
    from retry_loop_success [OF more(2) Inr] Suc.prems(4)
    have "res = Inr (Some r)" "w' = w\<lparr>http_calls := http_calls w + 1\<rparr>" by simp_all
    with Inr more Suc.prems show ?thesis by (intro exI [of _ 1]) simp
  next
    case (Inl e)
    let ?w2 = "w\<lparr>http_calls := http_calls w + 1,
        stdout := stdout w @ [str ''Request failed (attempt '' @ str_int attempt @ str '') ''
                          @ em_dash @ str '' retrying in '' @ str_int (backoff * attempt) @ str ''s...''],
        slept := slept w @ [backoff * attempt]\<rparr>"
    from Suc.prems have nonneg: "0 \<le> backoff * attempt" by simp
    from retry_loop_retry [OF more(1) nonneg Inl] Suc.prems(4)
    have rec: "retry_loop ev url retries backoff (attempt + 1) ?w2 = (res, w')" by simp
    from Suc.hyps(2) have k: "k = nat (retries + 1 - (attempt + 1))" by simp
    from Suc.prems more have pre: "1 \<le> attempt + 1" "attempt + 1 \<le> retries + 1" by simp_all
    from Suc.hyps(1) [OF k Suc.prems(1) pre rec]
    obtain n where n: "1 \<le> n" "int n \<le> retries + 2 - (attempt + 1)"
      "http_calls w' = http_calls ?w2 + n"
      "slept w' = slept ?w2 @ map (\<lambda>i. backoff * int i) [nat (attempt + 1)..<nat (attempt + 1) + (n - 1)]"
      "\<forall>i<n - 1. isl (attempt_outcome ev url (http_calls ?w2 + i))"
      "case res of
              Inl e \<Rightarrow> int n = retries + 2 - (attempt + 1) \<and>
                       attempt_outcome ev url (http_calls ?w2 + (n - 1)) = Inl e
            | Inr None \<Rightarrow> False
            | Inr (Some r) \<Rightarrow> attempt_outcome ev url (http_calls ?w2 + (n - 1)) = Inr r"
      by blast
    from Suc.prems(2) have na: "nat (attempt + 1) = Suc (nat attempt)" "int (nat attempt) = attempt" by simp_all
    from n(1) have upt: "[nat attempt..<nat attempt + (Suc n - 1)] =
        nat attempt # [Suc (nat attempt)..<Suc (nat attempt) + (n - 1)]"
      by (simp add: upt_conv_Cons)
    have sl: "slept w' = slept w @ map (\<lambda>i. backoff * int i) [nat attempt..<nat attempt + (Suc n - 1)]"
      unfolding upt using n(4) na by simp
    have fails: "\<forall>i<Suc n - 1. isl (attempt_outcome ev url (http_calls w + i))"
    proof (intro allI impI)
      fix i assume i: "i < Suc n - 1"
      show "isl (attempt_outcome ev url (http_calls w + i))"
      proof (cases i)
        case 0 with Inl show ?thesis by simp
      next
        case (Suc j)
        with i have "j < n - 1" by simp
        with n(5) have "isl (attempt_outcome ev url (http_calls ?w2 + j))" by blast
        with Suc show ?thesis by simp
      qed
    qed
    from n(1) have idx: "http_calls ?w2 + (n - 1) = http_calls w + (Suc n - 1)" by simp
    have out: "case res of
              Inl e \<Rightarrow> int (Suc n) = retries + 2 - attempt \<and>
                       attempt_outcome ev url (http_calls w + (Suc n - 1)) = Inl e
            | Inr None \<Rightarrow> False
            | Inr (Some r) \<Rightarrow> attempt_outcome ev url (http_calls w + (Suc n - 1)) = Inr r"
      using n(6) unfolding idx by (auto split: sum.splits option.splits)
    from n(2) have b: "int (Suc n) \<le> retries + 2 - attempt" by simp
    from n(3) have c: "http_calls w' = http_calls w + Suc n" by simp
    have a: "1 \<le> Suc n" by simp
    from a b c sl fails out show ?thesis
      by (intro exI [of _ "Suc n"] conjI)
  qed
qed

text \<open>
  Claim C5.  With a retry limit \<open>retries \<ge> 0\<close> (the default is 2) the fetch makes
  \<open>n \<le> retries + 1\<close> attempts, all but the last of them failed, and sleeps
  \<open>backoff * i\<close> after the failed attempt \<open>i\<close>, for \<open>i = 1 .. n - 1\<close>; it
  returns the response of the last attempt, or raises its exception when all
  \<open>retries + 1\<close> attempts failed.  With the default limit, two failures followed by
  a success return the successful response after exactly the two waits \<open>backoff * 1\<close>
  and \<open>backoff * 2\<close>.
\<close>

theorem fetch_retry_backoff:
  assumes "0 \<le> retries" and "0 \<le> backoff"
    and "requests_get_with_retry ev url retries backoff w = (res, w')"
  shows "(\<exists>n. 1 \<le> n \<and> int n \<le> retries + 1 \<and>
           http_calls w' = http_calls w + n \<and>
           slept w' = slept w @ map (\<lambda>i. backoff * int i) [1..<n] \<and>
           (\<forall>i<n - 1. isl (attempt_outcome ev url (http_calls w + i))) \<and>
           (case res of
              Inl e \<Rightarrow> int n = retries + 1 \<and>
                       attempt_outcome ev url (http_calls w + (n - 1)) = Inl e
            | Inr None \<Rightarrow> False
            | Inr (Some r) \<Rightarrow> attempt_outcome ev url (http_calls w + (n - 1)) = Inr r)) \<and>
         (retries = 2 \<and> isl (attempt_outcome ev url (http_calls w)) \<and>
          isl (attempt_outcome ev url (http_calls w + 1)) \<and>
          attempt_outcome ev url (http_calls w + 2) = Inr r \<longrightarrow>
            res = Inr (Some r) \<and> http_calls w' = http_calls w + 3 \<and>
            slept w' = slept w @ [backoff * 1, backoff * 2])"
proof -
  from assms(3) have run: "retry_loop ev url retries backoff 1 w = (res, w')"
    by (simp add: requests_get_with_retry_def)
  from assms(1) have le: "(1::int) \<le> retries + 1" by simp
  from retry_loop_spec [OF assms(2) order_refl le run]
  obtain n where n: "1 \<le> n" "int n \<le> retries + 2 - 1"
      "http_calls w' = http_calls w + n"
      "slept w' = slept w @ map (\<lambda>i. backoff * int i) [nat 1..<nat 1 + (n - 1)]"
      "\<forall>i<n - 1. isl (attempt_outcome ev url (http_calls w + i))"
      "case res of
              Inl e \<Rightarrow> int n = retries + 2 - 1 \<and>
                       attempt_outcome ev url (http_calls w + (n - 1)) = Inl e
            | Inr None \<Rightarrow> False
            | Inr (Some r) \<Rightarrow> attempt_outcome ev url (http_calls w + (n - 1)) = Inr r"
    by blast
  from n(1) have rng: "[nat 1..<nat 1 + (n - 1)] = [1..<n]" by simp
  have first: "\<exists>n. 1 \<le> n \<and> int n \<le> retries + 1 \<and>
           http_calls w' = http_calls w + n \<and>
           slept w' = slept w @ map (\<lambda>i. backoff * int i) [1..<n] \<and>
           (\<forall>i<n - 1. isl (attempt_outcome ev url (http_calls w + i))) \<and>
           (case res of
              Inl e \<Rightarrow> int n = retries + 1 \<and>
                       attempt_outcome ev url (http_calls w + (n - 1)) = Inl e
            | Inr None \<Rightarrow> False
            | Inr (Some r) \<Rightarrow> attempt_outcome ev url (http_calls w + (n - 1)) = Inr r)"
    using n unfolding rng by (intro exI [of _ n]) (auto split: sum.splits option.splits)
  have second: "res = Inr (Some r) \<and> http_calls w' = http_calls w + 3 \<and>
            slept w' = slept w @ [backoff * 1, backoff * 2]"
    if h: "retries = 2" "isl (attempt_outcome ev url (http_calls w))"
      "isl (attempt_outcome ev url (http_calls w + 1))"
      "attempt_outcome ev url (http_calls w + 2) = Inr r"
  proof -
    from n(1,2) h(1) have "n = 1 \<or> n = 2 \<or> n = 3" by auto
    moreover have "n \<noteq> 1" using n(6) h(1,2) by (auto split: sum.splits option.splits)
    moreover have "n \<noteq> 2" using n(6) h(1,3) by (auto split: sum.splits option.splits)
    ultimately have n3: "n = 3" by blast
    with n(6) h(4) have "res = Inr (Some r)" by (auto split: sum.splits option.splits)
    moreover from n(4) n3 have "slept w' = slept w @ [backoff * 1, backoff * 2]"
      by (simp add: upt_rec)
    ultimately show ?thesis using n(3) n3 by simp
  qed
  from first second show ?thesis by blast
qed

text \<open>The flaky environment, with the defaults \<open>retries = 2\<close> and \<open>backoff = 2\<close>.\<close>

theorem fetch_retry_backoff_witness:
  "fst (requests_get_with_retry flaky_env (str ''https://www.firstcry.com/search?query=hot+wheels'') 2 2
        fresh_world) = Inr (Some \<lparr>status_code = 200, resp_text = str ''<html></html>''\<rparr>) \<and>
   slept (snd (requests_get_with_retry flaky_env
        (str ''https://www.firstcry.com/search?query=hot+wheels'') 2 2 fresh_world)) = [2, 4] \<and>
   http_calls (snd (requests_get_with_retry flaky_env
        (str ''https://www.firstcry.com/search?query=hot+wheels'') 2 2 fresh_world)) = 3"
proof -
  let ?url = "str ''https://www.firstcry.com/search?query=hot+wheels''"
  let ?run = "requests_get_with_retry flaky_env ?url 2 2 fresh_world"
  have o0: "isl (attempt_outcome flaky_env ?url (http_calls fresh_world))"
    by (simp add: attempt_outcome_def flaky_env_def fresh_world_def)
  have o1: "isl (attempt_outcome flaky_env ?url (http_calls fresh_world + 1))"
    by (simp add: attempt_outcome_def flaky_env_def fresh_world_def raise_for_status_def)
  have o2: "attempt_outcome flaky_env ?url (http_calls fresh_world + 2)
      = Inr \<lparr>status_code = 200, resp_text = str ''<html></html>''\<rparr>"
    by (simp add: attempt_outcome_def flaky_env_def fresh_world_def raise_for_status_def)
  have run: "?run = (fst ?run, snd ?run)" by (rule prod.collapse [symmetric])
  have z: "(0::int) \<le> 2" by simp
  from fetch_retry_backoff [OF z z run, THEN conjunct2, rule_format, OF conjI [OF refl conjI [OF o0 conjI [OF o1 o2]]]]
  have "fst ?run = Inr (Some \<lparr>status_code = 200, resp_text = str ''<html></html>''\<rparr>) \<and>
        http_calls (snd ?run) = http_calls fresh_world + 3 \<and>
        slept (snd ?run) = slept fresh_world @ [2 * 1, 2 * 2]" .
  then show ?thesis by (simp add: fresh_world_def)
qed

section \<open>Properties of the change detection\<close>

lemma then_do_Inr:
  "then_do m f w = (Inr b, w') \<longleftrightarrow> (\<exists>a w1. m w = (Inr a, w1) \<and> f a w1 = (Inr b, w'))"
  by (auto simp: then_do_def split: prod.splits sum.splits)

lemma then_do_Inl:
  "then_do m f w = (Inl e, w') \<longleftrightarrow>
     m w = (Inl e, w') \<or> (\<exists>a w1. m w = (Inr a, w1) \<and> f a w1 = (Inl e, w'))"
  by (auto simp: then_do_def split: prod.splits sum.splits)

lemma then_do_cases:
  assumes "then_do m f w = (r, w')"
  obtains (first) e where "m w = (Inl e, w')" "r = Inl e"
  | (second) a w1 where "m w = (Inr a, w1)" "f a w1 = (r, w')"
  using assms by (auto simp: then_do_def split: prod.splits sum.splits)

lemma db_op_keeps:
  "db_op ev w = (r, w') \<Longrightarrow> w' = w\<lparr>db_ops := db_ops w + 1\<rparr>"
  by (auto simp: db_op_def Let_def split: option.splits)

lemma process_loop_keeps:
  "process_loop ev now tbl nf ps w = (r, w') \<Longrightarrow> \<exists>k. w' = w\<lparr>db_ops := db_ops w + k\<rparr>"
proof (induction ps arbitrary: tbl nf w)
  case Nil
  then have "w' = w\<lparr>db_ops := db_ops w + 0\<rparr>" by (simp add: return_def)
  then show ?case by blast
next
  case (Cons p ps)
  obtain pid title where p: "p = (pid, title)" by (cases p)
  from Cons.prems [unfolded p process_loop.simps]
  show ?case
  proof (cases rule: then_do_cases)
    case (first e)
    from db_op_keeps [OF first(1)] show ?thesis by blast
  next
    case (second a w1)
    from db_op_keeps [OF second(1)] have w1: "w1 = w\<lparr>db_ops := db_ops w + 1\<rparr>" .
    show ?thesis
    proof (cases "select_product_id tbl pid = None")
      case True
      with second(2) have "then_do (db_op ev) (\<lambda>u.
           process_loop ev now (insert_or_replace tbl (pid, title, now))
             (nf @ [(pid, title)]) ps) w1 = (r, w')" by simp
      then show ?thesis
      proof (cases rule: then_do_cases)
        case (first e)
        from db_op_keeps [OF first(1)] w1 have "w' = w\<lparr>db_ops := db_ops w + 2\<rparr>" by simp
        then show ?thesis by blast
      next
        case (second a' w2)
        from db_op_keeps [OF second(1)] w1 have w2: "w2 = w\<lparr>db_ops := db_ops w + 2\<rparr>" by simp
        from Cons.IH [OF second(2)] obtain k where "w' = w2\<lparr>db_ops := db_ops w2 + k\<rparr>" by blast
        with w2 have "w' = w\<lparr>db_ops := db_ops w + (2 + k)\<rparr>" by simp
        then show ?thesis by blast
      qed
    next
      case False
      with second(2) have "then_do (db_op ev) (\<lambda>u.
           process_loop ev now (update_last_seen tbl now pid) nf ps) w1 = (r, w')" by simp
      then show ?thesis
      proof (cases rule: then_do_cases)
        case (first e)
        from db_op_keeps [OF first(1)] w1 have "w' = w\<lparr>db_ops := db_ops w + 2\<rparr>" by simp
        then show ?thesis by blast
      next
        case (second a' w2)
        from db_op_keeps [OF second(1)] w1 have w2: "w2 = w\<lparr>db_ops := db_ops w + 2\<rparr>" by simp
        from Cons.IH [OF second(2)] obtain k where "w' = w2\<lparr>db_ops := db_ops w2 + k\<rparr>" by blast
        with w2 have "w' = w\<lparr>db_ops := db_ops w + (2 + k)\<rparr>" by simp
        then show ?thesis by blast
      qed
    qed
  qed
qed

text \<open>The pure loop: what the statements compute when no operation raises.\<close>

lemma process_loop_step:
  "process_loop ev now tbl nf ((pid, title) # ps) w = (Inr res, w') \<Longrightarrow>
   \<exists>w2. process_loop ev now
          (if select_product_id tbl pid = None then insert_or_replace tbl (pid, title, now)
           else update_last_seen tbl now pid)
          (if select_product_id tbl pid = None then nf @ [(pid, title)] else nf) ps w2
        = (Inr res, w')"
  by (auto simp: then_do_Inr split: if_splits)

lemma select_None: "select_product_id tbl pid = None \<longleftrightarrow> pid \<notin> fst ` set tbl"
  by (force simp: select_product_id_def find_None_iff)

lemma insert_new: "pid \<notin> fst ` set tbl \<Longrightarrow> insert_or_replace tbl (pid, title, now) = tbl @ [(pid, title, now)]"
  by (force simp: insert_or_replace_def filter_id_conv)

lemma update_is_touch: "update_last_seen tbl now pid = map (touch now {pid}) tbl"
  by (auto simp: update_last_seen_def touch_def)

lemma touch_touch: "touch now A (touch now B r) = touch now (A \<union> B) r"
  by (auto simp: touch_def)

lemma touch_absent: "fst r \<notin> A \<Longrightarrow> touch now (insert pid A) r = (if fst r = pid then (fst r, fst (snd r), now) else r)"
  by (auto simp: touch_def)

lemma process_loop_closed_form:
  "process_loop ev now tbl nf ps w = (Inr (tbl', nf'), w') \<Longrightarrow> distinct (map fst ps) \<Longrightarrow>
   nf' = nf @ filter (\<lambda>p. fst p \<notin> fst ` set tbl) ps \<and>
   tbl' = map (touch now (fst ` set ps)) tbl @
          map (\<lambda>p. (fst p, snd p, now)) (filter (\<lambda>p. fst p \<notin> fst ` set tbl) ps)"
proof (induction ps arbitrary: tbl nf w)
  case Nil
  then show ?case by (simp add: return_def touch_def)
next
  case (Cons p ps)
  obtain pid title where p: "p = (pid, title)" by (cases p)
  from Cons.prems(2) p have d: "distinct (map fst ps)" and fresh: "pid \<notin> fst ` set ps" by auto
  show ?case
  proof (cases "pid \<in> fst ` set tbl")
    case False
    then have sel: "select_product_id tbl pid = None" by (simp add: select_None)
    from process_loop_step [OF Cons.prems(1) [unfolded p]] sel insert_new [OF False]
    obtain w2 where "process_loop ev now (tbl @ [(pid, title, now)]) (nf @ [(pid, title)]) ps w2
        = (Inr (tbl', nf'), w')" by auto
    from Cons.IH [OF this d]
    have nf': "nf' = (nf @ [(pid, title)]) @
          filter (\<lambda>p. fst p \<notin> fst ` set (tbl @ [(pid, title, now)])) ps"
      and tbl': "tbl' = map (touch now (fst ` set ps)) (tbl @ [(pid, title, now)]) @
          map (\<lambda>p. (fst p, snd p, now)) (filter (\<lambda>p. fst p \<notin> fst ` set (tbl @ [(pid, title, now)])) ps)"
      by blast+
    have f: "filter (\<lambda>p. fst p \<notin> fst ` set (tbl @ [(pid, title, now)])) ps
        = filter (\<lambda>p. fst p \<notin> fst ` set tbl) ps"
      using fresh by (intro filter_cong refl) force
    have t1: "map (touch now (fst ` set ps)) tbl = map (touch now (fst ` set (p # ps))) tbl"
      using False by (intro map_cong refl) (auto simp: touch_def p)
    have t2: "touch now (fst ` set ps) (pid, title, now) = (pid, title, now)"
      by (simp add: touch_def)
    from nf' tbl' show ?thesis
      unfolding f by (simp add: p False t1 [unfolded p] t2)
  next
    case True
    then have sel: "select_product_id tbl pid \<noteq> None" by (simp add: select_None)
    from process_loop_step [OF Cons.prems(1) [unfolded p]] sel
    obtain w2 where "process_loop ev now (update_last_seen tbl now pid) nf ps w2
        = (Inr (tbl', nf'), w')" by auto
    from Cons.IH [OF this d]
    have nf': "nf' = nf @ filter (\<lambda>p. fst p \<notin> fst ` set (update_last_seen tbl now pid)) ps"
      and tbl': "tbl' = map (touch now (fst ` set ps)) (update_last_seen tbl now pid) @
          map (\<lambda>p. (fst p, snd p, now)) (filter (\<lambda>p. fst p \<notin> fst ` set (update_last_seen tbl now pid)) ps)"
      by blast+
    have keys: "fst ` set (update_last_seen tbl now pid) = fst ` set tbl"
      by (force simp: update_last_seen_def split: if_splits)
    have t: "map (touch now (fst ` set ps)) (update_last_seen tbl now pid)
        = map (touch now (fst ` set (p # ps))) tbl"
      by (simp add: update_is_touch touch_touch p comp_def Un_commute)
    from nf' tbl' show ?thesis
      unfolding keys t by (simp add: p True)
  qed
qed

lemma process_loop_keys_grow:
  "process_loop ev now tbl nf ps w = (Inr (tbl', nf'), w') \<Longrightarrow>
   fst ` set tbl \<union> fst ` set ps \<subseteq> fst ` set tbl'"
proof (induction ps arbitrary: tbl nf w)
  case Nil
  then show ?case by (simp add: return_def)
next
  case (Cons p ps)
  obtain pid title where p: "p = (pid, title)" by (cases p)
  let ?tbl1 = "if select_product_id tbl pid = None then insert_or_replace tbl (pid, title, now)
           else update_last_seen tbl now pid"
  from process_loop_step [OF Cons.prems(1) [unfolded p]]
  obtain w2 nf1 where run: "process_loop ev now ?tbl1 nf1 ps w2 = (Inr (tbl', nf'), w')" by blast
  have sub: "fst ` set tbl \<union> {pid} \<subseteq> fst ` set ?tbl1"
    by (force simp: insert_or_replace_def update_last_seen_def select_None split: if_splits)
  from Cons.IH [OF run] have "fst ` set ?tbl1 \<union> fst ` set ps \<subseteq> fst ` set tbl'" .
  with sub have "fst ` set tbl \<union> ({pid} \<union> fst ` set ps) \<subseteq> fst ` set tbl'" by blast
  then show ?case by (simp add: p)
qed

lemma process_loop_stamps:
  "process_loop ev now tbl nf ps w = (Inr (tbl', nf'), w') \<Longrightarrow>
   \<forall>r \<in> set tbl. fst r \<in> S \<longrightarrow> snd (snd r) = now \<Longrightarrow>
   (\<forall>r \<in> set tbl'. fst r \<in> S \<union> fst ` set ps \<longrightarrow> snd (snd r) = now) \<and>
   (\<forall>r \<in> set tbl'. fst r \<notin> fst ` set ps \<longrightarrow> r \<in> set tbl)"
proof (induction ps arbitrary: tbl nf w S)
  case Nil
  then show ?case by (simp add: return_def)
next
  case (Cons p ps)
  obtain pid title where p: "p = (pid, title)" by (cases p)
  let ?tbl1 = "if select_product_id tbl pid = None then insert_or_replace tbl (pid, title, now)
           else update_last_seen tbl now pid"
  from process_loop_step [OF Cons.prems(1) [unfolded p]]
  obtain w2 nf1 where run: "process_loop ev now ?tbl1 nf1 ps w2 = (Inr (tbl', nf'), w')" by blast
  have inv: "\<forall>r \<in> set ?tbl1. fst r \<in> insert pid S \<longrightarrow> snd (snd r) = now"
    using Cons.prems(2) by (auto simp: insert_or_replace_def update_last_seen_def split: if_splits)
  have old: "\<forall>r \<in> set ?tbl1. fst r \<noteq> pid \<longrightarrow> r \<in> set tbl"
    by (auto simp: insert_or_replace_def update_last_seen_def split: if_splits)
  from Cons.IH [OF run inv]
  have a: "\<forall>r \<in> set tbl'. fst r \<in> insert pid S \<union> fst ` set ps \<longrightarrow> snd (snd r) = now"
    and b: "\<forall>r \<in> set tbl'. fst r \<notin> fst ` set ps \<longrightarrow> r \<in> set ?tbl1"
    by blast+
  from a b old show ?case by (auto simp: p)
qed

lemma detect_changes_returns:
  assumes "detect_changes ev tbl products w = (Inr (new_found, prev_count, curr_count), w')"
  shows "\<exists>tbl' w1 w2.
           process_loop ev (time_time ev (clock_reads w)) tbl [] products w1
             = (Inr (tbl', new_found), w2) \<and>
           prev_count = int (length tbl) \<and> curr_count = int (length products) \<and>
           disk w' = Some tbl' \<and> clock_reads w' = clock_reads w + 1"
proof -
  from assms obtain u w1 where
    t: "then_do (db_op ev) (\<lambda>u.
     let prev_count = int (length tbl) in
     then_do (process_loop ev (time_time ev (clock_reads w)) tbl [] products) (\<lambda>(tbl', new_found).
     then_do (commit ev tbl') (\<lambda>u.
     let curr_count = int (length products) in
     return (new_found, prev_count, curr_count)))) (w\<lparr>clock_reads := clock_reads w + 1\<rparr>)
      = (Inr (new_found, prev_count, curr_count), w')"
    by (auto simp: detect_changes_def then_do_Inr time_now_def)
  then obtain w2 where w2: "db_op ev (w\<lparr>clock_reads := clock_reads w + 1\<rparr>) = (Inr (), w2)"
    and t2: "then_do (process_loop ev (time_time ev (clock_reads w)) tbl [] products) (\<lambda>(tbl', new_found).
     then_do (commit ev tbl') (\<lambda>u.
     return (new_found, int (length tbl), int (length products)))) w2
      = (Inr (new_found, prev_count, curr_count), w')"
    by (auto simp: then_do_Inr Let_def)
  from t2 obtain tbl' nf w3 where
    loop: "process_loop ev (time_time ev (clock_reads w)) tbl [] products w2 = (Inr (tbl', nf), w3)"
    and t3: "then_do (commit ev tbl') (\<lambda>u.
     return (nf, int (length tbl), int (length products))) w3
      = (Inr (new_found, prev_count, curr_count), w')"
    by (auto simp: then_do_Inr)
  from t3 obtain w4 where c: "commit ev tbl' w3 = (Inr (), w4)"
    and r: "nf = new_found" "prev_count = int (length tbl)" "curr_count = int (length products)"
      "w' = w4"
    by (auto simp: then_do_Inr return_def)
  from c obtain w5 where d: "db_op ev w3 = (Inr (), w5)" and w4: "w4 = w5\<lparr>disk := Some tbl'\<rparr>"
    by (auto simp: commit_def then_do_Inr)
  from process_loop_keeps [OF loop] obtain k where w3: "w3 = w2\<lparr>db_ops := db_ops w2 + k\<rparr>" by blast
  from db_op_keeps [OF w2] db_op_keeps [OF d] w3 w4 r(4)
  have "disk w' = Some tbl'" "clock_reads w' = clock_reads w + 1" by simp_all
  with loop r show ?thesis by blast
qed

lemma commit_raises: "commit ev tbl w = (Inl e, w') \<Longrightarrow> disk w' = disk w \<and> clock_reads w' = clock_reads w"
  by (auto simp: commit_def then_do_Inl dest!: db_op_keeps)

lemma detect_changes_raises:
  assumes "detect_changes ev tbl products w = (Inl e, w')"
  shows "disk w' = disk w"
proof -
  let ?w0 = "w\<lparr>clock_reads := clock_reads w + 1\<rparr>"
  let ?now = "time_time ev (clock_reads w)"
  from assms have t: "then_do (db_op ev) (\<lambda>u.
     then_do (process_loop ev ?now tbl [] products) (\<lambda>(tbl', new_found).
     then_do (commit ev tbl') (\<lambda>u.
     return (new_found, int (length tbl), int (length products))))) ?w0 = (Inl e, w')"
    by (auto simp: detect_changes_def then_do_Inl time_now_def Let_def)
  then show ?thesis
  proof (cases rule: then_do_cases)
    case (first e')
    from db_op_keeps [OF first(1)] show ?thesis by simp
  next
    case (second a w1)
    from db_op_keeps [OF second(1)] have w1: "disk w1 = disk w" by simp
    from second(2) show ?thesis
    proof (cases rule: then_do_cases)
      case (first e')
      from process_loop_keeps [OF first(1)] w1 show ?thesis by auto
    next
      case (second res w2)
      from process_loop_keeps [OF second(1)] w1 have w2: "disk w2 = disk w" by auto
      obtain tbl' nf where res: "res = (tbl', nf)" by (cases res)
      from second(2) [unfolded res] have
        "then_do (commit ev tbl') (\<lambda>u. return (nf, int (length tbl), int (length products))) w2
          = (Inl e, w')" by simp
      then show ?thesis
      proof (cases rule: then_do_cases)
        case (first e')
        from commit_raises [OF first(1)] w2 show ?thesis by simp
      next
        case (second a' w3)
        then show ?thesis by (simp add: return_def)
      qed
    qed
  qed
qed

text \<open>
  Claim C2.  When the change detection completes on an extraction result (whose ids
  are pairwise distinct): the new records are the records, in extraction order, whose
  id is not in the store; \<open>previous_count\<close> is the number of rows before the run and
  \<open>current_count\<close> the length of the extraction result; the committed table is the
  old rows, those with an extracted id re-stamped and otherwise untouched, followed by
  one row \<open>(id, title, now)\<close> for each new record.
\<close>

theorem change_detection:
  assumes "detect_changes ev tbl products w = (Inr (new_records, previous_count, current_count), w')"
    and "distinct (map fst products)"
  shows "new_records = filter (\<lambda>p. fst p \<notin> fst ` set tbl) products \<and>
         previous_count = int (length tbl) \<and>
         current_count = int (length products) \<and>
         disk w' = Some (map (touch (time_time ev (clock_reads w)) (fst ` set products)) tbl @
                         map (\<lambda>p. (fst p, snd p, time_time ev (clock_reads w))) new_records)"
proof -
  from detect_changes_returns [OF assms(1)] obtain tbl' w1 w2 where
    loop: "process_loop ev (time_time ev (clock_reads w)) tbl [] products w1
             = (Inr (tbl', new_records), w2)"
    and c: "previous_count = int (length tbl)" "current_count = int (length products)"
    and d: "disk w' = Some tbl'" by blast
  from process_loop_closed_form [OF loop assms(2)] c d show ?thesis by simp
qed

lemma abc_run:
  "detect_changes flaky_env seeded_table abc_products fresh_world =
     (Inr ([(str ''C'', str ''Car C'')], 2, 3),
      fresh_world\<lparr>clock_reads := 1, db_ops := 8,
        disk := Some [(str ''A'', str ''Car A'', 1700000000), (str ''B'', str ''Car B'', 1700000000),
                      (str ''C'', str ''Car C'', 1700000000)]\<rparr>)"
  by (simp add: detect_changes_def then_do_def time_now_def db_op_def commit_def return_def
      select_product_id_def insert_or_replace_def update_last_seen_def
      flaky_env_def fresh_world_def seeded_table_def abc_products_def Let_def)

text \<open>
  The store holds \<open>A\<close> and \<open>B\<close> and the extraction yields \<open>[A, B, C]\<close>: the new
  records are \<open>[C]\<close>, the counts 2 and 3, and all three rows carry the time of the run.
\<close>

theorem change_detection_witness:
  "fst (detect_changes flaky_env seeded_table abc_products fresh_world)
     = Inr ([(str ''C'', str ''Car C'')], 2, 3) \<and>
   disk (snd (detect_changes flaky_env seeded_table abc_products fresh_world))
     = Some [(str ''A'', str ''Car A'', 1700000000), (str ''B'', str ''Car B'', 1700000000),
             (str ''C'', str ''Car C'', 1700000000)] \<and>
   [(str ''C'', str ''Car C'')] = filter (\<lambda>p. fst p \<notin> fst ` set seeded_table) abc_products"
proof -
  have d: "distinct (map fst abc_products)" by (simp add: abc_products_def)
  from change_detection [OF abc_run d] abc_run show ?thesis by simp
qed

text \<open>
  Claim C10.  The clock is read once in a completed change detection, before the loop;
  every row of an extracted id, inserted or only touched, carries that one reading as
  its \<open>last_seen\<close>, and every other row is a row of the table before the run.
\<close>

theorem single_timestamp:
  assumes "detect_changes ev tbl products w = (Inr res, w')"
  shows "\<exists>tbl'. disk w' = Some tbl' \<and> clock_reads w' = clock_reads w + 1 \<and>
           fst ` set products \<subseteq> fst ` set tbl' \<and>
           (\<forall>r \<in> set tbl'. fst r \<in> fst ` set products \<longrightarrow>
              snd (snd r) = time_time ev (clock_reads w)) \<and>
           (\<forall>r \<in> set tbl'. fst r \<notin> fst ` set products \<longrightarrow> r \<in> set tbl)"
proof -
  obtain nf p c where res: "res = (nf, p, c)" by (cases res)
  from detect_changes_returns [OF assms [unfolded res]] obtain tbl' w1 w2 where
    loop: "process_loop ev (time_time ev (clock_reads w)) tbl [] products w1 = (Inr (tbl', nf), w2)"
    and d: "disk w' = Some tbl'" "clock_reads w' = clock_reads w + 1" by blast
  have "\<forall>r \<in> set tbl. fst r \<in> {} \<longrightarrow> snd (snd r) = time_time ev (clock_reads w)" by simp
  from process_loop_stamps [OF loop this] process_loop_keys_grow [OF loop] d
  show ?thesis by simp
qed

theorem single_timestamp_witness:
  "disk (snd (detect_changes flaky_env seeded_table abc_products fresh_world))
     = Some [(str ''A'', str ''Car A'', 1700000000), (str ''B'', str ''Car B'', 1700000000),
             (str ''C'', str ''Car C'', 1700000000)] \<and>
   clock_reads (snd (detect_changes flaky_env seeded_table abc_products fresh_world)) = 1 \<and>
   time_time flaky_env (clock_reads fresh_world) = 1700000000"
proof -
  from single_timestamp [OF abc_run] abc_run show ?thesis
    by (simp add: flaky_env_def fresh_world_def)
qed

section \<open>Properties of the notifier\<close>








section \<open>Properties of the run\<close>

lemma keeps_store_refl: "keeps_store w w"
  by (simp add: keeps_store_def)

lemma keeps_store_trans: "keeps_store w w1 \<Longrightarrow> keeps_store w1 w2 \<Longrightarrow> keeps_store w w2"
  by (simp add: keeps_store_def)

lemma print_keeps: "print line w = (r, w') \<Longrightarrow> r = Inr () \<and> keeps_store w w'"
  by (auto simp: print_def keeps_store_def)

lemma print_world: "print line w = (Inr (), w\<lparr>stdout := stdout w @ [line]\<rparr>)"
  by (simp add: print_def)

lemma time_sleep_keeps: "time_sleep wait w = (r, w') \<Longrightarrow> keeps_store w w'"
  by (auto simp: time_sleep_def keeps_store_def split: if_splits)

lemma try_get_keeps: "try_get ev url w = (r, w') \<Longrightarrow> keeps_store w w'"
  by (auto simp: try_get_outcome keeps_store_def)

lemma retry_loop_keeps:
  "retry_loop ev url retries backoff attempt w = (r, w') \<Longrightarrow> keeps_store w w'"
proof (induction "nat (retries + 2 - attempt)" arbitrary: attempt w)
  case 0
  then have "\<not> attempt < retries + 2" by simp
  with "0.prems" have "w' = w" by (subst (asm) retry_loop.simps) simp
  then show ?case by (simp add: keeps_store_refl)
next
  case (Suc k)
  then have lt: "attempt < retries + 2" by simp
  obtain o1 w1 where tg: "try_get ev url w = (o1, w1)" by (cases "try_get ev url w")
  from try_get_keeps [OF tg] have k1: "keeps_store w w1" .
  show ?case
  proof (cases o1)
    case (Inr resp)
    with Suc.prems tg lt have "w' = w1" by (subst (asm) retry_loop.simps) simp
    with k1 show ?thesis by simp
  next
    case (Inl e)
    show ?thesis
    proof (cases "attempt \<le> retries")
      case False
      with Suc.prems tg lt Inl have "w' = w1" by (subst (asm) retry_loop.simps) simp
      with k1 show ?thesis by simp
    next
      case True
      let ?line = "str ''Request failed (attempt '' @ str_int attempt @ str '') ''
                          @ em_dash @ str '' retrying in '' @ str_int (backoff * attempt) @ str ''s...''"
      let ?w2 = "w1\<lparr>stdout := stdout w1 @ [?line]\<rparr>"
      have k2: "keeps_store w ?w2" using k1 by (simp add: keeps_store_def)
      obtain o3 w3 where sl: "time_sleep (backoff * attempt) ?w2 = (o3, w3)"
        by (cases "time_sleep (backoff * attempt) ?w2")
      from time_sleep_keeps [OF sl] k2 have k3: "keeps_store w w3" by (rule keeps_store_trans [rotated])
      have td: "then_do (print ?line) (\<lambda>u. time_sleep (backoff * attempt)) w1 = (o3, w3)"
        using sl by (simp add: then_do_def print_def)
      show ?thesis
      proof (cases o3)
        case (Inl e')
        with Suc.prems tg lt \<open>o1 = Inl e\<close> True td have "w' = w3"
          by (subst (asm) retry_loop.simps) (simp add: Let_def)
        with k3 show ?thesis by simp
      next
        case (Inr u)
        with Suc.prems tg lt \<open>o1 = Inl e\<close> True td
        have rec: "retry_loop ev url retries backoff (attempt + 1) w3 = (r, w')"
          by (subst (asm) retry_loop.simps) (simp add: Let_def)
        from Suc.hyps(2) have "k = nat (retries + 2 - (attempt + 1))" by simp
        from Suc.hyps(1) [OF this rec] k3 show ?thesis by (rule keeps_store_trans [rotated])
      qed
    qed
  qed
qed

lemma fetch_search_html_keeps:
  assumes "fetch_search_html cfg ev query w = (r, w')"
  shows "keeps_store w w'"
proof -
  from assms [unfolded fetch_search_html_def] show ?thesis
  proof (cases rule: then_do_cases)
    case (first e)
    then show ?thesis by (simp add: lift_def keeps_store_refl)
  next
    case (second url w1)
    then have w1: "w1 = w" by (simp add: lift_def)
    from second(2) show ?thesis
    proof (cases rule: then_do_cases)
      case (first e)
      from print_keeps [OF first(1)] show ?thesis by simp
    next
      case (second u w2)
      from print_keeps [OF second(1)] w1 have k2: "keeps_store w w2" by simp
      from second(2) show ?thesis
      proof (cases rule: then_do_cases)
        case (first e)
        from retry_loop_keeps [OF first(1) [unfolded requests_get_with_retry_def]] k2
        show ?thesis by (rule keeps_store_trans [rotated])
      next
        case (second resp w3)
        from retry_loop_keeps [OF second(1) [unfolded requests_get_with_retry_def]] k2
        have "keeps_store w w3" by (rule keeps_store_trans [rotated])
        moreover from second(2) have "w' = w3"
          by (cases resp) (simp_all add: raise_def return_def)
        ultimately show ?thesis by simp
      qed
    qed
  qed
qed

lemma send_email_frame:
  "send_email cfg ev subject body w = (r, w') \<Longrightarrow>
   disk w' = disk w \<and> db_ops w' = db_ops w \<and> clock_reads w' = clock_reads w \<and>
   (\<exists>ls. stdout w' = stdout w @ ls)"
  by (auto simp: send_email_def then_do_def print_def Let_def split: if_splits option.splits)

lemma print_samples_keeps: "print_samples i ps w = (r, w') \<Longrightarrow> r = Inr () \<and> keeps_store w w'"
proof (induction ps arbitrary: i w)
  case Nil
  then show ?case by (simp add: return_def keeps_store_refl)
next
  case (Cons p ps)
  obtain pid title where p: "p = (pid, title)" by (cases p)
  from Cons.prems [unfolded p] obtain w1 where
    "print_samples (i + 1) ps (w\<lparr>stdout := stdout w @ [str_int i @ str ''. '' @ title @ str '' '' @ em_dash @ str '' id: '' @ pid]\<rparr>) = (r, w')"
    by (simp add: then_do_def print_def)
  from Cons.IH [OF this] show ?case by (simp add: keeps_store_def)
qed

lemma show_sample_keeps: "show_sample cfg products w = (r, w') \<Longrightarrow> r = Inr () \<and> keeps_store w w'"
proof (cases "SHOW_SAMPLE cfg")
  case False
  assume "show_sample cfg products w = (r, w')"
  with False show ?thesis by (simp add: show_sample_def return_def keeps_store_refl)
next
  case True
  assume "show_sample cfg products w = (r, w')"
  with True have "print_samples 1 (take 10 products)
      (w\<lparr>stdout := stdout w @ [str ''First 10 parsed products (sample):'']\<rparr>) = (r, w')"
    by (simp add: show_sample_def then_do_def print_def)
  from print_samples_keeps [OF this] show ?thesis by (simp add: keeps_store_def)
qed

lemma notify_frame:
  "notify cfg ev new_found prev_count curr_count w = (r, w') \<Longrightarrow> disk w' = disk w"
  by (auto simp: notify_def then_do_def print_def split: if_splits dest!: send_email_frame)

lemma ensure_db_frame:
  assumes "ensure_db ev w = (r, w')"
  shows "stored_rows (disk w') = stored_rows (disk w) \<and> clock_reads w' = clock_reads w \<and>
         (\<forall>tbl. r = Inr tbl \<longrightarrow> tbl = stored_rows (disk w) \<and> disk w' = Some tbl)"
  using assms
  by (auto simp: ensure_db_def then_do_def db_op_def Let_def stored_rows_def
      split: option.splits prod.splits sum.splits)

lemma startup_frame:
  assumes "startup cfg ev w = (r, w')"
  shows "stored_rows (disk w') = stored_rows (disk w) \<and> clock_reads w' = clock_reads w \<and>
         (\<forall>tbl. r = Inr tbl \<longrightarrow> tbl = stored_rows (disk w) \<and> disk w' = Some tbl)"
proof -
  from assms obtain w0 where e: "ensure_db ev w0 = (r, w')" and w0: "disk w0 = disk w" "clock_reads w0 = clock_reads w"
    by (auto simp: startup_def then_do_def print_def)
  from ensure_db_frame [OF e] w0 show ?thesis by simp
qed

lemma handler_returns:
  "fst (handler cfg ev e w) = Inr () \<and> disk (snd (handler cfg ev e w)) = disk w \<and>
   str ''Error: '' @ repr ev e \<in> set (stdout (snd (handler cfg ev e w)))"
proof -
  let ?w1 = "w\<lparr>stdout := stdout w @ [str ''Error: '' @ repr ev e]\<rparr>"
  obtain r w2 where s: "send_email cfg ev (error_subject cfg) (repr ev e) ?w1 = (r, w2)"
    by (cases "send_email cfg ev (error_subject cfg) (repr ev e) ?w1")
  then have h: "handler cfg ev e w = (Inr (), w2)"
    by (cases r) (simp_all add: handler_def then_do_def print_def)
  from send_email_frame [OF s] obtain ls where "disk w2 = disk w" "stdout w2 = (stdout w @ [str ''Error: '' @ repr ev e]) @ ls"
    by auto
  with h show ?thesis by simp
qed

lemma stored_rows_simps [simp]: "stored_rows (Some t) = t" "stored_rows None = []"
  by (simp_all add: stored_rows_def)

lemma after_fetch_small:
  "length html_text < 100 \<Longrightarrow> after_fetch cfg ev tbl html_text = raise small_html_error"
  by (simp add: after_fetch_def)

lemma after_fetch_disk:
  assumes "after_fetch cfg ev tbl html_text w = (r, w')"
  shows "disk w' = disk w \<or>
         (\<exists>products new_found tbl' wa wb.
            parse_products_from_html (BeautifulSoup ev) (urlparse_path ev) html_text = Inr products \<and>
            process_loop ev (time_time ev (clock_reads w)) tbl [] products wa
              = (Inr (tbl', new_found), wb) \<and>
            disk w' = Some tbl')"
proof (cases "html_text = [] \<or> length html_text < 100")
  case True
  with assms have "w' = w" by (simp add: after_fetch_def raise_def)
  then show ?thesis by simp
next
  case False
  with assms have "then_do (lift (parse_products_from_html (BeautifulSoup ev) (urlparse_path ev) html_text))
          (\<lambda>products.
        then_do (show_sample cfg products) (\<lambda>u.
        then_do (detect_changes ev tbl products) (\<lambda>(new_found, prev_count, curr_count).
        then_do (notify cfg ev new_found prev_count curr_count) (\<lambda>u.
        print (str ''Run complete.''))))) w = (r, w')"
    by (simp add: after_fetch_def)
  then show ?thesis
  proof (cases rule: then_do_cases)
    case (first e)
    then show ?thesis by (simp add: lift_def)
  next
    case (second products w1)
    then have w1: "w1 = w"
      and parsed: "parse_products_from_html (BeautifulSoup ev) (urlparse_path ev) html_text = Inr products"
      by (simp_all add: lift_def)
    from second(2) show ?thesis
    proof (cases rule: then_do_cases)
      case (first e)
      from show_sample_keeps [OF first(1)] w1 show ?thesis by (simp add: keeps_store_def)
    next
      case (second u w2)
      from show_sample_keeps [OF second(1)] w1 have w2: "disk w2 = disk w"
        and c2: "clock_reads w2 = clock_reads w" by (simp_all add: keeps_store_def)
      from second(2) show ?thesis
      proof (cases rule: then_do_cases)
        case (first e)
        from detect_changes_raises [OF first(1)] w2 show ?thesis by simp
      next
        case (second res w3)
        obtain nf p c where res: "res = (nf, p, c)" by (cases res)
        from detect_changes_returns [OF second(1) [unfolded res]] obtain tbl' wa wb where
          loop: "process_loop ev (time_time ev (clock_reads w2)) tbl [] products wa = (Inr (tbl', nf), wb)"
          and d3: "disk w3 = Some tbl'" by blast
        from second(2) [unfolded res] have
          "then_do (notify cfg ev nf p c) (\<lambda>u. print (str ''Run complete.'')) w3 = (r, w')" by simp
        then have "disk w' = disk w3"
        proof (cases rule: then_do_cases)
          case (first e)
          from notify_frame [OF first(1)] show ?thesis .
        next
          case (second u' w4)
          from notify_frame [OF second(1)] print_keeps [OF second(2)] show ?thesis
            by (simp add: keeps_store_def)
        qed
        with d3 have "disk w' = Some tbl'" by simp
        with loop [unfolded c2] parsed have "\<exists>products new_found tbl' wa wb.
            parse_products_from_html (BeautifulSoup ev) (urlparse_path ev) html_text = Inr products \<and>
            process_loop ev (time_time ev (clock_reads w)) tbl [] products wa
              = (Inr (tbl', new_found), wb) \<and>
            disk w' = Some tbl'"
          by (intro exI conjI)
        then show ?thesis by (rule disjI2)
      qed
    qed
  qed
qed

lemma main_body_disk:
  assumes "main_body cfg ev w = (r, w')"
  shows "stored_rows (disk w') = stored_rows (disk w) \<or>
         (\<exists>html_text products new_found tbl' w1 w2 wa wb.
            fetch_search_html cfg ev (SEARCH_QUERY cfg) w1 = (Inr html_text, w2) \<and>
            parse_products_from_html (BeautifulSoup ev) (urlparse_path ev) html_text = Inr products \<and>
            process_loop ev (time_time ev (clock_reads w)) (stored_rows (disk w)) [] products wa
              = (Inr (tbl', new_found), wb) \<and>
            disk w' = Some tbl')"
  using assms [unfolded main_body_def]
proof (cases rule: then_do_cases)
  case (first e)
  from startup_frame [OF first(1)] show ?thesis by simp
next
  case (second tbl w1)
  from startup_frame [OF second(1)] have s: "stored_rows (disk w1) = stored_rows (disk w)"
    "tbl = stored_rows (disk w)" and c1: "clock_reads w1 = clock_reads w" by simp_all
  from second(2) show ?thesis
  proof (cases rule: then_do_cases)
    case (first e)
    from fetch_search_html_keeps [OF first(1)] s show ?thesis by (simp add: keeps_store_def)
  next
    case (second html_text w2)
    from fetch_search_html_keeps [OF second(1)] s c1
    have w2: "stored_rows (disk w2) = stored_rows (disk w)" and c2: "clock_reads w2 = clock_reads w"
      by (simp_all add: keeps_store_def)
    from after_fetch_disk [OF second(2)] show ?thesis
    proof
      assume "disk w' = disk w2"
      with w2 show ?thesis by simp
    next
      assume "\<exists>products new_found tbl' wa wb.
            parse_products_from_html (BeautifulSoup ev) (urlparse_path ev) html_text = Inr products \<and>
            process_loop ev (time_time ev (clock_reads w2)) tbl [] products wa
              = (Inr (tbl', new_found), wb) \<and>
            disk w' = Some tbl'"
      then obtain products new_found tbl' wa wb where
        "parse_products_from_html (BeautifulSoup ev) (urlparse_path ev) html_text = Inr products"
        "process_loop ev (time_time ev (clock_reads w)) (stored_rows (disk w)) [] products wa
              = (Inr (tbl', new_found), wb)"
        "disk w' = Some tbl'"
        unfolding c2 s(2) by blast
      with second(1) have "\<exists>html_text products new_found tbl' w1 w2 wa wb.
            fetch_search_html cfg ev (SEARCH_QUERY cfg) w1 = (Inr html_text, w2) \<and>
            parse_products_from_html (BeautifulSoup ev) (urlparse_path ev) html_text = Inr products \<and>
            process_loop ev (time_time ev (clock_reads w)) (stored_rows (disk w)) [] products wa
              = (Inr (tbl', new_found), wb) \<and>
            disk w' = Some tbl'"
        by (intro exI conjI)
      then show ?thesis by (rule disjI2)
    qed
  qed
qed

lemma main_cases:
  obtains (ok) w' where "main_body cfg ev w = (Inr (), w')" "main cfg ev w = (Inr (), w')"
  | (failed) e w1 where "main_body cfg ev w = (Inl e, w1)" "main cfg ev w = handler cfg ev e w1"
proof (cases "main_body cfg ev w")
  case (Pair r w1)
  show ?thesis
  proof (cases r)
    case (Inl e)
    with Pair show ?thesis by (intro failed [of e w1]) (simp_all add: main_def)
  next
    case (Inr u)
    with Pair show ?thesis by (intro ok [of w1]) (simp_all add: main_def)
  qed
qed

text \<open>
  Claim C6.  The writes of a run reach the database file together or not at all: after
  \<open>main\<close> the file holds either the rows it held before, or the table that the loop,
  run to its end over the whole extraction result of the fetched page, produced.  A change detection that raises (at any
  operation up to and including the commit itself) leaves the file as it was; one that
  returns has committed the table of the completed loop.
\<close>

theorem atomic_commit:
  "(stored_rows (disk (snd (main cfg ev w))) = stored_rows (disk w) \<or>
    (\<exists>html_text products new_found tbl' w1 w2 wa wb.
       fetch_search_html cfg ev (SEARCH_QUERY cfg) w1 = (Inr html_text, w2) \<and>
       parse_products_from_html (BeautifulSoup ev) (urlparse_path ev) html_text = Inr products \<and>
       process_loop ev (time_time ev (clock_reads w)) (stored_rows (disk w)) [] products wa
         = (Inr (tbl', new_found), wb) \<and>
       disk (snd (main cfg ev w)) = Some tbl')) \<and>
   (\<forall>tbl products e w1 w2.
      detect_changes ev tbl products w1 = (Inl e, w2) \<longrightarrow> disk w2 = disk w1) \<and>
   (\<forall>tbl products new_found prev_count curr_count w1 w2.
      detect_changes ev tbl products w1 = (Inr (new_found, prev_count, curr_count), w2) \<longrightarrow>
      (\<exists>tbl' wa wb.
         process_loop ev (time_time ev (clock_reads w1)) tbl [] products wa
           = (Inr (tbl', new_found), wb) \<and>
         disk w2 = Some tbl'))"
proof -
  have a: "stored_rows (disk (snd (main cfg ev w))) = stored_rows (disk w) \<or>
    (\<exists>html_text products new_found tbl' w1 w2 wa wb.
       fetch_search_html cfg ev (SEARCH_QUERY cfg) w1 = (Inr html_text, w2) \<and>
       parse_products_from_html (BeautifulSoup ev) (urlparse_path ev) html_text = Inr products \<and>
       process_loop ev (time_time ev (clock_reads w)) (stored_rows (disk w)) [] products wa
         = (Inr (tbl', new_found), wb) \<and>
       disk (snd (main cfg ev w)) = Some tbl')"
  proof (cases rule: main_cases [of cfg ev w])
    case (ok w')
    from main_body_disk [OF ok(1)] ok(2) show ?thesis by simp
  next
    case (failed e w1)
    from handler_returns [of cfg ev e w1] failed(2)
    have "disk (snd (main cfg ev w)) = disk w1" by simp
    with main_body_disk [OF failed(1)] show ?thesis by simp
  qed
  have b: "\<forall>tbl products e w1 w2.
      detect_changes ev tbl products w1 = (Inl e, w2) \<longrightarrow> disk w2 = disk w1"
    using detect_changes_raises by blast
  have c: "\<forall>tbl products new_found prev_count curr_count w1 w2.
      detect_changes ev tbl products w1 = (Inr (new_found, prev_count, curr_count), w2) \<longrightarrow>
      (\<exists>tbl' wa wb.
         process_loop ev (time_time ev (clock_reads w1)) tbl [] products wa
           = (Inr (tbl', new_found), wb) \<and>
         disk w2 = Some tbl')"
  proof (intro allI impI)
    fix tbl products new_found prev_count curr_count w1 w2
    assume "detect_changes ev tbl products w1 = (Inr (new_found, prev_count, curr_count), w2)"
    from detect_changes_returns [OF this]
    show "\<exists>tbl' wa wb.
         process_loop ev (time_time ev (clock_reads w1)) tbl [] products wa
           = (Inr (tbl', new_found), wb) \<and>
         disk w2 = Some tbl'" by blast
  qed
  from a b c show ?thesis by blast
qed


text \<open>
  Claim C7.  When the fetch returns a body of fewer than 100 characters, the body of
  the run raises the \<open>RuntimeError\<close> of the source for a suspiciously small page,
  in the world the fetch left: everything after the fetch is that \<open>raise\<close>, so no
  extraction is made, no database operation runs, the clock is not read and the
  rows of the file are those before the run.
\<close>

theorem suspicious_response:
  assumes "startup cfg ev w = (Inr tbl, w1)"
    and "fetch_search_html cfg ev (SEARCH_QUERY cfg) w1 = (Inr html_text, w2)"
    and "length html_text < 100"
  shows "main_body cfg ev w = (Inl small_html_error, w2) \<and>
         after_fetch cfg ev tbl html_text = raise small_html_error \<and>
         (\<exists>msg. small_html_error = RuntimeError msg) \<and>
         disk w2 = disk w1 \<and> db_ops w2 = db_ops w1 \<and> clock_reads w2 = clock_reads w \<and>
         stored_rows (disk w2) = stored_rows (disk w) \<and>
         fst (main cfg ev w) = Inr () \<and>
         stored_rows (disk (snd (main cfg ev w))) = stored_rows (disk w)"
proof -
  from after_fetch_small [OF assms(3)]
  have af: "after_fetch cfg ev tbl html_text = raise small_html_error" .
  with assms(1,2) have mb: "main_body cfg ev w = (Inl small_html_error, w2)"
    by (simp add: main_body_def then_do_def raise_def)
  from fetch_search_html_keeps [OF assms(2)] have k: "keeps_store w1 w2" .
  from startup_frame [OF assms(1)] have s: "stored_rows (disk w1) = stored_rows (disk w)"
    "clock_reads w1 = clock_reads w" by simp_all
  from mb have m: "main cfg ev w = handler cfg ev small_html_error w2" by (simp add: main_def)
  from handler_returns [of cfg ev small_html_error w2] m
  have h: "fst (main cfg ev w) = Inr ()" "disk (snd (main cfg ev w)) = disk w2" by simp_all
  have e: "\<exists>msg. small_html_error = RuntimeError msg" by (simp add: small_html_error_def)
  from mb af e k s h show ?thesis by (simp add: keeps_store_def)
qed

subsection \<open>Sample runs\<close>

lemma shop_parse:
  "parse_products_from_html (\<lambda>h. shop_soup) (\<lambda>h. Inr h) html_text =
     Inr [(str ''A'', str ''Car A''), (str ''B'', str ''Car B''), (str ''C'', str ''Car C'')]"
  by (simp add: parse_products_from_html_def shop_soup_def strip_def is_space_def)

lemma demo_url:
  "build_fetch_url mail_cfg (str ''hot wheels'') = Inr (str ''https://www.firstcry.com/search?query=hot+wheels'')"
  by (simp add: build_fetch_url_def mail_cfg_def demo_cfg_def lower_def lower_cp_def
      quote_plus_def quote_def quote_byte_def always_safe_def encodable_def utf8_def)

lemma shop_fetch:
  "fetch_search_html mail_cfg (shop_env f g) (str ''hot wheels'') w =
     (Inr (replicate 120 32),
      w\<lparr>http_calls := http_calls w + 1,
        stdout := stdout w @ [str ''Fetching URL: https://www.firstcry.com/search?query=hot+wheels'']\<rparr>)"
  using demo_url
  by (simp add: fetch_search_html_def then_do_def lift_def print_def
      requests_get_with_retry_def retry_loop.simps try_get_def raise_for_status_def
      shop_env_def return_def Let_def)

lemma shop_env_sel:
  "sqlite_fault (shop_env f g) = f" "smtp_fault (shop_env f g) = g"
  "time_time (shop_env f g) k = 1700000000" "BeautifulSoup (shop_env f g) = (\<lambda>h. shop_soup)"
  "urlparse_path (shop_env f g) = (\<lambda>h. Inr h)" "repr (shop_env f g) e = str ''Exception()''"
  by (simp_all add: shop_env_def)

lemmas run_defs =
  main_def main_body_def startup_def ensure_db_def then_do_def db_op_def print_def
  after_fetch_def lift_def show_sample_def detect_changes_def time_now_def commit_def
  select_product_id_def insert_or_replace_def update_last_seen_def notify_def send_email_def
  handler_def return_def raise_def Let_def

lemma shop_cfg: "SEARCH_QUERY mail_cfg = str ''hot wheels''" "SMTP_HOST mail_cfg \<noteq> []"
  "SMTP_USER mail_cfg = str ''monitor@example.com''" "SMTP_PASS mail_cfg \<noteq> []"
  "EMAIL_TO mail_cfg = str ''owner@example.com''" "SHOW_SAMPLE mail_cfg = False"
  by (simp_all add: mail_cfg_def demo_cfg_def)

lemma failed_run:
  "fst (main mail_cfg (shop_env (fault_at 7 (DatabaseError (str ''disk I/O error''))) (\<lambda>k. None))
         seeded_world) = Inr () \<and>
   disk (snd (main mail_cfg (shop_env (fault_at 7 (DatabaseError (str ''disk I/O error''))) (\<lambda>k. None))
         seeded_world)) = Some seeded_table \<and>
   db_ops (snd (main mail_cfg (shop_env (fault_at 7 (DatabaseError (str ''disk I/O error''))) (\<lambda>k. None))
         seeded_world)) = 8 \<and>
   map Subject (outbox (snd (main mail_cfg (shop_env (fault_at 7 (DatabaseError (str ''disk I/O error''))) (\<lambda>k. None))
         seeded_world))) = [str ''[FirstCry Monitor] Error for hot wheels'']"
  using shop_fetch [of "fault_at 7 (DatabaseError (str ''disk I/O error''))" "\<lambda>k. None"] shop_parse
  by (simp add: run_defs shop_env_sel shop_cfg fault_at_def seeded_world_def fresh_world_def
      seeded_table_def stored_rows_def error_subject_def)

lemma complete_run:
  "fst (main mail_cfg (shop_env (\<lambda>k. None) (\<lambda>k. None)) seeded_world) = Inr () \<and>
   disk (snd (main mail_cfg (shop_env (\<lambda>k. None) (\<lambda>k. None)) seeded_world)) =
     Some [(str ''A'', str ''Car A'', 1700000000), (str ''B'', str ''Car B'', 1700000000),
           (str ''C'', str ''Car C'', 1700000000)] \<and>
   map Subject (outbox (snd (main mail_cfg (shop_env (\<lambda>k. None) (\<lambda>k. None)) seeded_world)))
     = [str ''[FirstCry] New items for hot wheels'']"
  using shop_fetch [of "\<lambda>k. None" "\<lambda>k. None"] shop_parse
  by (simp add: run_defs shop_env_sel shop_cfg seeded_world_def fresh_world_def
      seeded_table_def stored_rows_def new_items_subject_def)

lemma faulty_detect:
  "detect_changes (shop_env (fault_at 4 (DatabaseError (str ''disk I/O error''))) (\<lambda>k. None))
     seeded_table abc_products seeded_world
   = (Inl (DatabaseError (str ''disk I/O error'')),
      seeded_world\<lparr>clock_reads := 1, db_ops := 5\<rparr>)"
  by (simp add: run_defs shop_env_sel fault_at_def seeded_world_def fresh_world_def
      seeded_table_def abc_products_def)

text \<open>
  A fault at the fifth operation of the change detection, after the row of \<open>A\<close> was
  updated on the connection: the file still holds the seeded table.  So does it after
  a whole run with that fault, and after a run without fault it holds all three rows.
\<close>

theorem atomic_commit_witness:
  "disk (snd (detect_changes (shop_env (fault_at 4 (DatabaseError (str ''disk I/O error''))) (\<lambda>k. None))
     seeded_table abc_products seeded_world)) = Some seeded_table \<and>
   db_ops (snd (detect_changes (shop_env (fault_at 4 (DatabaseError (str ''disk I/O error''))) (\<lambda>k. None))
     seeded_table abc_products seeded_world)) = 5 \<and>
   disk (snd (main mail_cfg (shop_env (fault_at 7 (DatabaseError (str ''disk I/O error''))) (\<lambda>k. None))
         seeded_world)) = Some seeded_table \<and>
   disk (snd (main mail_cfg (shop_env (\<lambda>k. None) (\<lambda>k. None)) seeded_world)) =
     Some [(str ''A'', str ''Car A'', 1700000000), (str ''B'', str ''Car B'', 1700000000),
           (str ''C'', str ''Car C'', 1700000000)]"
proof -
  let ?ev = "shop_env (fault_at 4 (DatabaseError (str ''disk I/O error''))) (\<lambda>k. None)"
  note t = atomic_commit [of mail_cfg ?ev seeded_world, THEN conjunct2, THEN conjunct1, rule_format]
  from t [OF faulty_detect]
  have "disk (seeded_world\<lparr>clock_reads := 1, db_ops := 5\<rparr>) = disk seeded_world" .
  with faulty_detect
  have 1: "disk (snd (detect_changes ?ev seeded_table abc_products seeded_world)) = Some seeded_table"
    by (simp add: seeded_world_def)
  from faulty_detect
  have 2: "db_ops (snd (detect_changes ?ev seeded_table abc_products seeded_world)) = 5"
    by simp
  from 1 2 failed_run complete_run show ?thesis by blast
qed




lemma flaky_startup:
  "startup demo_cfg flaky_env fresh_world =
     (Inr [], fresh_world\<lparr>disk := Some [], db_ops := 3,
        stdout := [replicate 40 61,
          str ''FirstCry Monitor '' @ em_dash @ str '' query: '' @ [39] @ str ''hot wheels'' @ [39]]\<rparr>)"
  by (simp add: run_defs flaky_env_def fresh_world_def demo_cfg_def stored_rows_def)

lemma flaky_fetch:
  "fst (fetch_search_html demo_cfg flaky_env (SEARCH_QUERY demo_cfg) w) = Inr (str ''<html></html>'')"
  if "http_calls w = 0"
proof -
  have u: "build_fetch_url demo_cfg (SEARCH_QUERY demo_cfg)
      = Inr (str ''https://www.firstcry.com/search?query=hot+wheels'')"
    by (simp add: build_fetch_url_def demo_cfg_def lower_def lower_cp_def
      quote_plus_def quote_def quote_byte_def always_safe_def encodable_def utf8_def)
  show ?thesis using u that
    by (simp add: fetch_search_html_def then_do_def lift_def print_def
      requests_get_with_retry_def retry_loop.simps try_get_def raise_for_status_def
      time_sleep_def flaky_env_def return_def Let_def)
qed

text \<open>A first run in the flaky environment, whose third request returns 13 characters.\<close>

theorem suspicious_response_witness:
  "fst (main_body demo_cfg flaky_env fresh_world) = Inl small_html_error \<and>
   fst (main demo_cfg flaky_env fresh_world) = Inr () \<and>
   stored_rows (disk (snd (main demo_cfg flaky_env fresh_world))) = [] \<and>
   length (str ''<html></html>'') < 100"
proof -
  let ?w1 = "fresh_world\<lparr>disk := Some [], db_ops := 3,
        stdout := [replicate 40 61,
          str ''FirstCry Monitor '' @ em_dash @ str '' query: '' @ [39] @ str ''hot wheels'' @ [39]]\<rparr>"
  have h: "http_calls ?w1 = 0" by (simp add: fresh_world_def)
  have f: "fetch_search_html demo_cfg flaky_env (SEARCH_QUERY demo_cfg) ?w1 =
      (Inr (str ''<html></html>''), snd (fetch_search_html demo_cfg flaky_env (SEARCH_QUERY demo_cfg) ?w1))"
    using flaky_fetch [OF h] prod.collapse [of "fetch_search_html demo_cfg flaky_env (SEARCH_QUERY demo_cfg) ?w1"]
    by simp
  have l: "length (str ''<html></html>'') < 100" by simp
  from suspicious_response [OF flaky_startup f l] l show ?thesis
    by (simp add: fresh_world_def)
qed

end
